theory Spec2Isabelle
  imports Complex_Main "HOL-Library.Sublist"
begin

text \<open>
  A model of the invitation manager's pass lifecycle: the code generator, the scan
  handler of the scanner page, the invitation loop of the mail page, event deletion and
  the manual bulk import of the guests page. The hosted document store is a record of
  lists; every call into it that the source awaits inside a \<open>try\<close> block has an
  outcome supplied by an environment record, so that each \<open>catch\<close> branch of the source
  is a branch here. Strings are lists of 8-bit characters, the UTF-8 bytes of the text.
\<close>

section \<open>Code generator (src/utils/qrGenerator.ts, generateUniqueCode)\<close>

text \<open>
  Strings are lists of characters. \<open>Math.random()\<close> is the only source of
  nondeterminism of the generator: it is modelled as a stream \<open>rnd\<close> of reals, the
  \<open>k\<close>-th call returning \<open>rnd k\<close>. The product with \<open>chars.length\<close> is taken over the
  reals; the rounding of floating-point arithmetic is not modelled.
\<close>

definition chars :: string where
  "chars = ''ABCDEFGHIJKLMNOPQRSTUVWXYZ0123456789@#$%&*''"

text \<open>\<open>String.prototype.charAt\<close>: the empty string outside the string's range.\<close>

definition charAt :: "string \<Rightarrow> int \<Rightarrow> string" where
  "charAt s i = (if 0 \<le> i \<and> i < int (length s) then [s ! nat i] else [])"

text \<open>
  The loop \<open>for (let i = 0; i < 6; i++) code += chars.charAt(...)\<close>: after \<open>n\<close>
  iterations, starting at the \<open>k\<close>-th draw of the random source.
\<close>

primrec code_loop :: "(nat \<Rightarrow> real) \<Rightarrow> nat \<Rightarrow> nat \<Rightarrow> string" where
  "code_loop rnd k 0 = []"
| "code_loop rnd k (Suc n) =
     code_loop rnd k n @ charAt chars \<lfloor>rnd (k + n) * real (length chars)\<rfloor>"

definition generateUniqueCode :: "string \<Rightarrow> (nat \<Rightarrow> real) \<Rightarrow> nat \<Rightarrow> string" where
  "generateUniqueCode pfx rnd k = pfx @ ''-'' @ code_loop rnd k 6"

text \<open>
  The character class \<open>[A-Z0-9@#$%&*]\<close> of the specification, by character code.
\<close>

definition alphabet_class :: "char \<Rightarrow> bool" where
  "alphabet_class c =
     (let n = (of_char c :: nat)
      in (65 \<le> n \<and> n \<le> 90) \<or> (48 \<le> n \<and> n \<le> 57) \<or> c \<in> set ''@#$%&*'')"

text \<open>A value \<open>Math.random()\<close> can return: at least 0 and below 1.\<close>

definition unit_draw :: "real \<Rightarrow> bool" where
  "unit_draw r = (0 \<le> r \<and> r < 1)"


section \<open>Data model (the type declarations \<open>Event\<close>, \<open>Pass\<close>, and the documents written)\<close>

type_synonym timestamp = nat

record event =
  ev_id :: string
  admin_id :: string
  title :: string
  description :: "string option"
  logo_url :: "string option"
  bg_image_url :: "string option"
  bg_color :: "string option"
  accent_color :: "string option"
  qr_prefix :: "string option"
  ev_created_at :: "timestamp option"
  ev_updated_at :: "timestamp option"

text \<open>
  A pass document together with its document id. An absent optional field is \<open>None\<close>;
  \<open>used\<close> is written as \<open>false\<close> by every path that creates a pass.
\<close>

record pass =
  pass_id :: string
  event_id :: string
  code :: string
  guest_name :: string
  guest_email :: string
  sheet_id :: "string option"
  sent_at :: "timestamp option"
  used :: bool
  scanned_at :: "timestamp option"
  scanned_by :: "string option"
  pdf_url :: "string option"
  created_at :: "timestamp option"

datatype scan_status = valid | already_used | invalid

text \<open>The document added to \<open>scan_logs\<close> by the scan handler.\<close>

record scan_log =
  log_pass_id :: "string option"
  scanned_code :: string
  scanner_id :: string
  log_status :: scan_status
  log_event_id :: "string option"
  log_guest_name :: "string option"
  log_scanned_at :: timestamp

text \<open>
  The document added to \<open>email_logs\<close> by the invitation loop; \<open>status\<close> is the string
  the source writes (\<open>sent\<close>, \<open>failed\<close> or \<open>invalid\<close>).
\<close>

record email_log =
  el_pass_id :: string
  el_event_id :: string
  recipient_email :: string
  el_subject :: string
  el_status :: string
  error_message :: "string option"
  el_sent_at :: timestamp

text \<open>
  The collections of the document store, each in the order in which a query returns its
  documents.
\<close>

record store =
  events :: "event list"
  passes :: "pass list"
  scan_logs :: "scan_log list"
  email_logs :: "email_log list"

text \<open>What the store guarantees of document ids: they are not empty and not shared.\<close>

definition wf_store :: "store \<Rightarrow> bool" where
  "wf_store db = (distinct (map pass_id (passes db)) \<and> list_all (\<lambda>p. pass_id p \<noteq> []) (passes db))"

text \<open>The data model's invariant on codes: no two passes carry the same code.\<close>

definition unique_codes :: "store \<Rightarrow> bool" where
  "unique_codes db = distinct (map code (passes db))"


section \<open>Scanner page: \<open>handleScan\<close>\<close>

text \<open>
  What \<open>Date.toLocaleString\<close> is applied to: the date of a stored timestamp, or the
  invalid date that \<open>new Date(undefined)\<close> gives when the pass has no \<open>scanned_at\<close>.
\<close>

datatype js_date = Date timestamp | Invalid_Date

record scan_result =
  status :: scan_status
  message :: string
  guestName :: "string option"
  scannedAt :: "js_date option"
  res_code :: "string option"

text \<open>
  The component state the handler reads and writes: the \<open>isProcessing\<close> flag, the
  \<open>lastScannedCodeRef\<close> cell and the displayed result.
\<close>

record scanner_ui =
  isProcessing :: bool
  lastScannedCode :: string
  result :: "scan_result option"

text \<open>
  The outcome of each awaited store call of one \<open>handleScan\<close> run: whether it rejects
  (with which message, for the pass query, whose message is displayed), and the server
  time that \<open>serverTimestamp()\<close> resolves to in each of the two writes.
\<close>

record scan_env =
  getDocs_throws :: "string option"
  getDoc_throws :: bool
  updateDoc_throws :: bool
  addDoc_throws :: bool
  update_time :: timestamp
  log_time :: timestamp

text \<open>\<open>x || d\<close> on a string: the default when the string is empty.\<close>

definition or_default :: "string \<Rightarrow> string \<Rightarrow> string" where
  "or_default x d = (if x = [] then d else x)"

text \<open>\<open>x || null\<close> on a string.\<close>

definition or_null :: "string \<Rightarrow> string option" where
  "or_null x = (if x = [] then None else Some x)"

text \<open>
  The query \<open>where('code', '==', code), limit(1)\<close> on the passes collection: the first
  pass with that code.
\<close>

definition find_pass :: "string \<Rightarrow> store \<Rightarrow> pass option" where
  "find_pass c db = find (\<lambda>p. code p = c) (passes db)"

text \<open>
  The event title attached to the local copy of the pass: read when the pass has a
  non-empty \<open>event_id\<close>, the read did not fail and the event exists.
\<close>

definition fetch_event_title :: "scan_env \<Rightarrow> pass \<Rightarrow> store \<Rightarrow> string option" where
  "fetch_event_title env p db =
     (if event_id p = [] \<or> getDoc_throws env then None
      else map_option title (find (\<lambda>e. ev_id e = event_id p) (events db)))"

text \<open>
  First part of the \<open>try\<close> block, up to the last read: the pass found (with its event
  title), or the message of the error that the query threw.
\<close>

definition scan_lookup :: "scan_env \<Rightarrow> string \<Rightarrow> store \<Rightarrow> string + (pass \<times> string option) option" where
  "scan_lookup env c db =
     (case getDocs_throws env of
        Some err \<Rightarrow> Inl err
      | None \<Rightarrow>
          (case find_pass c db of
             None \<Rightarrow> Inr None
           | Some p \<Rightarrow> Inr (Some (p, fetch_event_title env p db))))"

text \<open>The three-way classification, on the copy of the pass that the lookup returned.\<close>

definition check_mark :: string where
  "check_mark = [CHR 0xE2, CHR 0x9C, CHR 0x93]"

definition classify :: "string \<Rightarrow> pass option \<Rightarrow> scan_result" where
  "classify c found =
     (case found of
        None \<Rightarrow>
          \<lparr>status = invalid, message = ''Invalid QR Code - Pass Not Found'',
           guestName = None, scannedAt = None, res_code = Some c\<rparr>
      | Some p \<Rightarrow>
          if used p \<or> scanned_at p \<noteq> None then
            \<lparr>status = already_used,
             message = ''Already Scanned - '' @ or_default (guest_name p) ''Guest'',
             guestName = Some (guest_name p),
             scannedAt = Some (case scanned_at p of Some t \<Rightarrow> Date t | None \<Rightarrow> Invalid_Date),
             res_code = Some c\<rparr>
          else
            \<lparr>status = valid,
             message = check_mark @ '' Access Granted - Welcome ''
                         @ or_default (guest_name p) ''Guest'' @ ''!'',
             guestName = Some (guest_name p), scannedAt = None, res_code = Some c\<rparr>)"

text \<open>\<open>updateDoc\<close> on one pass document, by id.\<close>

definition mark_used :: "string \<Rightarrow> timestamp \<Rightarrow> string \<Rightarrow> pass list \<Rightarrow> pass list" where
  "mark_used pid t uid ps =
     map (\<lambda>q. if pass_id q = pid
               then q\<lparr>used := True, scanned_at := Some t, scanned_by := Some uid\<rparr>
               else q) ps"

text \<open>
  Second part: in the \<open>valid\<close> branch the pass is updated, unless its id is empty or the
  write throws (the error is caught and dropped); the other branches write nothing.
\<close>

definition scan_update :: "scan_env \<Rightarrow> string \<Rightarrow> string \<Rightarrow> pass option \<Rightarrow> store \<Rightarrow> store" where
  "scan_update env uid c found db =
     (case found of
        None \<Rightarrow> db
      | Some p \<Rightarrow>
          if used p \<or> scanned_at p \<noteq> None then db
          else if pass_id p \<noteq> [] \<and> \<not> updateDoc_throws env
          then db\<lparr>passes := mark_used (pass_id p) (update_time env) uid (passes db)\<rparr>
          else db)"

definition scan_log_entry :: "scan_env \<Rightarrow> string \<Rightarrow> string \<Rightarrow> pass option \<Rightarrow> scan_log" where
  "scan_log_entry env uid c found =
     \<lparr>log_pass_id = map_option pass_id found,
      scanned_code = c,
      scanner_id = uid,
      log_status = status (classify c found),
      log_event_id = (case found of None \<Rightarrow> None | Some p \<Rightarrow> or_null (event_id p)),
      log_guest_name = (case found of None \<Rightarrow> None | Some p \<Rightarrow> or_null (guest_name p)),
      log_scanned_at = log_time env\<rparr>"

text \<open>Third part: the log entry is added, unless the write throws (caught and dropped).\<close>

definition scan_log_write :: "scan_env \<Rightarrow> string \<Rightarrow> string \<Rightarrow> pass option \<Rightarrow> store \<Rightarrow> store" where
  "scan_log_write env uid c found db =
     (if addDoc_throws env then db
      else db\<lparr>scan_logs := scan_logs db @ [scan_log_entry env uid c found]\<rparr>)"

text \<open>The result set by the outer \<open>catch\<close>.\<close>

definition scan_error_result :: "string \<Rightarrow> scan_result" where
  "scan_error_result err =
     \<lparr>status = invalid, message = ''Error processing scan: '' @ err,
      guestName = None, scannedAt = None, res_code = None\<rparr>"

text \<open>
  The whole \<open>try\<close> block with its outer \<open>catch\<close>: the result to display and the store
  afterwards.
\<close>

definition scan_body :: "scan_env \<Rightarrow> string \<Rightarrow> string \<Rightarrow> store \<Rightarrow> scan_result \<times> store" where
  "scan_body env uid c db =
     (case scan_lookup env c db of
        Inl err \<Rightarrow> (scan_error_result err, db)
      | Inr found \<Rightarrow>
          (let pass = map_option fst found
           in (classify c pass,
               scan_log_write env uid c pass (scan_update env uid c pass db))))"

text \<open>
  \<open>handleScan\<close>: nothing happens without a signed-in user, nor when a scan is in
  progress or the code is the one scanned last; otherwise the code is remembered, the
  \<open>try\<close> block runs, and \<open>finally\<close> clears the flag.
\<close>

definition handleScan :: "scan_env \<Rightarrow> string option \<Rightarrow> string \<Rightarrow> scanner_ui \<times> store \<Rightarrow> scanner_ui \<times> store" where
  "handleScan env user c st =
     (case st of (ui, db) \<Rightarrow>
        (case user of
           None \<Rightarrow> (ui, db)
         | Some uid \<Rightarrow>
             if isProcessing ui \<or> lastScannedCode ui = c then (ui, db)
             else
               (case scan_body env uid c db of
                  (res, db') \<Rightarrow>
                    (ui\<lparr>isProcessing := False, lastScannedCode := c, result := Some res\<rparr>, db'))))"

text \<open>
  The button under a displayed result (\<open>Resume Scanning\<close> / \<open>Close\<close>): clears the result
  and the remembered code.
\<close>

definition resume :: "scanner_ui \<Rightarrow> scanner_ui" where
  "resume ui = ui\<lparr>result := None, isProcessing := False, lastScannedCode := []\<rparr>"


subsection \<open>Two scanner devices on one store\<close>

text \<open>
  Each \<open>await\<close> of the \<open>try\<close> block hands control back, so the store calls of two
  devices running \<open>handleScan\<close> can alternate. A session is one run of the \<open>try\<close>
  block, past the guards of its own device, in three steps: the lookup (the query for
  the pass and the read of its event), the classification with, in the \<open>valid\<close> branch,
  the update of the pass, and the log write. Its phase says which step comes next and
  holds the copy of the pass that the lookup returned; the classification is made on
  that copy.
\<close>

datatype scan_phase = Lookup | Update "pass option" | Log "pass option" | Shown scan_result

record scan_session =
  ss_env :: scan_env
  ss_uid :: string
  ss_code :: string
  phase :: scan_phase

definition session_start :: "scan_env \<Rightarrow> string \<Rightarrow> string \<Rightarrow> scan_session" where
  "session_start env uid c = \<lparr>ss_env = env, ss_uid = uid, ss_code = c, phase = Lookup\<rparr>"

definition session_step :: "scan_session \<Rightarrow> store \<Rightarrow> scan_session \<times> store" where
  "session_step s db =
     (case phase s of
        Lookup \<Rightarrow>
          (case scan_lookup (ss_env s) (ss_code s) db of
             Inl err \<Rightarrow> (s\<lparr>phase := Shown (scan_error_result err)\<rparr>, db)
           | Inr found \<Rightarrow> (s\<lparr>phase := Update (map_option fst found)\<rparr>, db))
      | Update pass \<Rightarrow>
          (s\<lparr>phase := Log pass\<rparr>, scan_update (ss_env s) (ss_uid s) (ss_code s) pass db)
      | Log pass \<Rightarrow>
          (s\<lparr>phase := Shown (classify (ss_code s) pass)\<rparr>,
           scan_log_write (ss_env s) (ss_uid s) (ss_code s) pass db)
      | Shown r \<Rightarrow> (s, db))"

datatype device = Gate1 | Gate2

text \<open>A schedule names, one after the other, the device whose next step is served.\<close>

fun interleave :: "device list \<Rightarrow> scan_session \<times> scan_session \<times> store \<Rightarrow> scan_session \<times> scan_session \<times> store" where
  "interleave [] st = st"
| "interleave (Gate1 # ds) (a, b, db) =
     (case session_step a db of (a', db') \<Rightarrow> interleave ds (a', b, db'))"
| "interleave (Gate2 # ds) (a, b, db) =
     (case session_step b db of (b', db') \<Rightarrow> interleave ds (a, b', db'))"

text \<open>The classification a session displays, once it has one.\<close>

definition shown_status :: "scan_session \<Rightarrow> scan_status option" where
  "shown_status s = (case phase s of Shown r \<Rightarrow> Some (status r) | _ \<Rightarrow> None)"

text \<open>
  The position in a schedule of the \<open>n\<close>-th step (counting from 0) of a device: its
  lookup is step 0, its update step 1, its log write step 2.
\<close>

fun call_index :: "device \<Rightarrow> nat \<Rightarrow> device list \<Rightarrow> nat option" where
  "call_index d n [] = None"
| "call_index d n (x # xs) =
     (if x = d
      then (case n of 0 \<Rightarrow> Some 0 | Suc m \<Rightarrow> map_option Suc (call_index d m xs))
      else map_option Suc (call_index d n xs))"

text \<open>A schedule that serves the three steps of each device, and nothing more.\<close>

definition complete :: "device list \<Rightarrow> bool" where
  "complete ds = (count_list ds Gate1 = 3 \<and> count_list ds Gate2 = 3)"

text \<open>
  A schedule in which neither device's lookup waits for the other's update: each lookup
  comes before the other device's update.
\<close>

definition racy :: "device list \<Rightarrow> bool" where
  "racy ds =
     (case (call_index Gate1 0 ds, call_index Gate1 1 ds,
            call_index Gate2 0 ds, call_index Gate2 1 ds) of
        (Some l1, Some u1, Some l2, Some u2) \<Rightarrow> l2 < u1 \<and> l1 < u2
      | _ \<Rightarrow> False)"

section \<open>Events page: \<open>handleDeleteEvent\<close>\<close>

text \<open>
  The handler asks for confirmation and then deletes the one event document; an error of
  the delete is caught and dropped.
\<close>

definition handleDeleteEvent :: "bool \<Rightarrow> bool \<Rightarrow> string \<Rightarrow> store \<Rightarrow> store" where
  "handleDeleteEvent confirmed deleteDoc_throws eventId db =
     (if \<not> confirmed then db
      else if deleteDoc_throws then db
      else db\<lparr>events := filter (\<lambda>e. ev_id e \<noteq> eventId) (events db)\<rparr>)"


section \<open>String operations of the host language\<close>

text \<open>
  The white space that \<open>String.prototype.trim\<close> strips, each code point as its UTF-8
  bytes: tab, line feed, vertical tab, form feed, carriage return and space; the no-break
  space U+00A0; U+1680; U+2000 to U+200A; the line and paragraph separators U+2028 and
  U+2029; U+202F, U+205F, U+3000; and the byte order mark U+FEFF.
\<close>

definition white_space :: "string list" where
  "white_space =
     [[CHR 0x09], [CHR 0x0A], [CHR 0x0B],
      [CHR 0x0C], [CHR 0x0D], [CHR 0x20],
      [CHR 0xC2, CHR 0xA0], [CHR 0xE1, CHR 0x9A, CHR 0x80], [CHR 0xE2, CHR 0x80, CHR 0x80],
      [CHR 0xE2, CHR 0x80, CHR 0x81], [CHR 0xE2, CHR 0x80, CHR 0x82], [CHR 0xE2, CHR 0x80, CHR 0x83],
      [CHR 0xE2, CHR 0x80, CHR 0x84], [CHR 0xE2, CHR 0x80, CHR 0x85], [CHR 0xE2, CHR 0x80, CHR 0x86],
      [CHR 0xE2, CHR 0x80, CHR 0x87], [CHR 0xE2, CHR 0x80, CHR 0x88], [CHR 0xE2, CHR 0x80, CHR 0x89],
      [CHR 0xE2, CHR 0x80, CHR 0x8A], [CHR 0xE2, CHR 0x80, CHR 0xA8], [CHR 0xE2, CHR 0x80, CHR 0xA9],
      [CHR 0xE2, CHR 0x80, CHR 0xAF], [CHR 0xE2, CHR 0x81, CHR 0x9F], [CHR 0xE3, CHR 0x80, CHR 0x80],
      [CHR 0xEF, CHR 0xBB, CHR 0xBF]]"

text \<open>
  The string without the leading pieces that are among \<open>ws\<close>: as long as the string
  begins with one of them, that piece is dropped.
\<close>

function strip_leading :: "string list \<Rightarrow> string \<Rightarrow> string" where
  "strip_leading ws s =
     (case find (\<lambda>w. w \<noteq> [] \<and> prefix w s) ws of
        None \<Rightarrow> s
      | Some w \<Rightarrow> strip_leading ws (drop (length w) s))"
  by pat_completeness auto
termination
proof (relation "measure (\<lambda>(ws, s). length s)")
  show "wf (measure (\<lambda>(ws, s). length s))"
    by simp
next
  fix ws :: "string list" and s w :: string
  assume "find (\<lambda>w. w \<noteq> [] \<and> prefix w s) ws = Some w"
  then have "w \<noteq> []" and "prefix w s"
    by (auto simp: find_Some_iff)
  then have "0 < length w" and "length w \<le> length s"
    by (simp_all add: prefix_length_le)
  then have "length s - length w < length s"
    by arith
  then show "((ws, drop (length w) s), (ws, s)) \<in> measure (\<lambda>(ws, s). length s)"
    by simp
qed

declare strip_leading.simps [simp del]

text \<open>
  \<open>s.trim()\<close>: the white space at the start is stripped, then the white space at the
  end (in the reversed string, where each piece reads backwards). In UTF-8 the bytes of
  one code point never begin or end inside those of another, so a piece found at an end
  of the bytes is that code point at that end of the text.
\<close>

definition trim :: "string \<Rightarrow> string" where
  "trim s = rev (strip_leading (map rev white_space) (rev (strip_leading white_space s)))"

text \<open>
  \<open>s.split(sep)\<close> for a one-character separator: the pieces between the separators, at
  least one piece.
\<close>

fun js_split :: "char \<Rightarrow> string \<Rightarrow> string list" where
  "js_split sep [] = [[]]"
| "js_split sep (c # cs) =
     (if c = sep then [] # js_split sep cs
      else (case js_split sep cs of
              w # ws \<Rightarrow> (c # w) # ws
            | [] \<Rightarrow> [[c]]))"




text \<open>
  The first occurrence of a pattern in a string: the text before it and the text after
  it.
\<close>

fun first_match :: "string \<Rightarrow> string \<Rightarrow> (string \<times> string) option" where
  "first_match pat [] = (if pat = [] then Some ([], []) else None)"
| "first_match pat (c # cs) =
     (if prefix pat (c # cs) then Some ([], drop (length pat) (c # cs))
      else map_option (\<lambda>(b, a). (c # b, a)) (first_match pat cs))"

text \<open>
  The expansion of a replacement string (\<open>GetSubstitution\<close> of the language standard,
  for a string pattern, which has no capture groups): \<open>$$\<close> stands for a dollar sign,
  \<open>$&\<close> for the matched text, \<open>$\<close> followed by a back quote for the text before the
  match, \<open>$\<close> followed by a single quote for the text after it; everything else stands
  for itself.
\<close>

fun getSubstitution :: "string \<Rightarrow> string \<Rightarrow> string \<Rightarrow> string \<Rightarrow> string" where
  "getSubstitution matched pre post [] = []"
| "getSubstitution matched pre post [c] = [c]"
| "getSubstitution matched pre post (c # d # t) =
     (if c = CHR ''$'' \<and> d = CHR ''$'' then CHR ''$'' # getSubstitution matched pre post t
      else if c = CHR ''$'' \<and> d = CHR ''&'' then matched @ getSubstitution matched pre post t
      else if c = CHR ''$'' \<and> d = CHR 0x60 then pre @ getSubstitution matched pre post t
      else if c = CHR ''$'' \<and> d = CHR 0x27 then post @ getSubstitution matched pre post t
      else c # getSubstitution matched pre post (d # t))"

text \<open>
  \<open>s.replace(pat, repl)\<close> with a string pattern: the first occurrence only is replaced,
  by the expansion of \<open>repl\<close>.
\<close>

definition js_replace :: "string \<Rightarrow> string \<Rightarrow> string \<Rightarrow> string" where
  "js_replace s pat repl =
     (case first_match pat s of
        None \<Rightarrow> s
      | Some (pre, post) \<Rightarrow> pre @ getSubstitution pat pre post repl @ post)"


section \<open>Guests page: \<open>handleBulkImport\<close>\<close>

text \<open>
  One line of the pasted text: it is split at commas and every piece is trimmed; the
  first two pieces are the name and the email. The line gives a guest when both are
  non-empty, and \<open>null\<close> otherwise (also when there is no second piece).
\<close>

definition parse_line :: "string \<Rightarrow> (string \<times> string) option" where
  "parse_line line =
     (case map trim (js_split CHR '','' line) of
        name # email # rest \<Rightarrow> if name \<noteq> [] \<and> email \<noteq> [] then Some (name, email) else None
      | _ \<Rightarrow> None)"

text \<open>The document written for a guest, before the store gives it an id.\<close>

definition new_pass :: "string \<Rightarrow> string \<Rightarrow> string \<Rightarrow> string \<Rightarrow> timestamp \<Rightarrow> pass" where
  "new_pass ev c name email t =
     \<lparr>pass_id = [], event_id = ev, code = c, guest_name = name, guest_email = email,
      sheet_id = None, sent_at = None, used = False, scanned_at = None, scanned_by = None,
      pdf_url = None, created_at = Some t\<rparr>"

text \<open>
  The \<open>map\<close> over the lines: a guest document or \<open>null\<close> for each line. A code is
  generated for the lines that give a guest only, each taking the next six draws of the
  random source, so the number \<open>k\<close> of draws made so far is passed along.
\<close>

fun guest_rows :: "string \<Rightarrow> string \<Rightarrow> timestamp \<Rightarrow> (nat \<Rightarrow> real) \<Rightarrow> nat \<Rightarrow> string list \<Rightarrow> pass option list" where
  "guest_rows ev pfx t rnd k [] = []"
| "guest_rows ev pfx t rnd k (l # ls) =
     (case parse_line l of
        None \<Rightarrow> None # guest_rows ev pfx t rnd k ls
      | Some (name, email) \<Rightarrow>
          Some (new_pass ev (generateUniqueCode pfx rnd k) name email t)
            # guest_rows ev pfx t rnd (k + 6) ls)"

text \<open>
  \<open>Promise.all\<close> over one \<open>addDoc\<close> per guest: the \<open>j\<close>-th document is stored under the
  id the store gives it, unless that write fails.
\<close>

fun add_all :: "(nat \<Rightarrow> string) \<Rightarrow> (nat \<Rightarrow> bool) \<Rightarrow> nat \<Rightarrow> pass list \<Rightarrow> pass list \<Rightarrow> pass list" where
  "add_all ids throws j [] ps = ps"
| "add_all ids throws j (g # gs) ps =
     add_all ids throws (Suc j) gs (if throws j then ps else ps @ [g\<lparr>pass_id := ids j\<rparr>])"

text \<open>The page state the handler uses, and the alert it may show.\<close>

record guests_ui =
  g_events :: "event list"
  g_selectedEventId :: string
  bulkText :: string
  showBulkImport :: bool

datatype import_alert = No_valid_guests | Imported nat | Import_error

text \<open>
  What the store does during one import: the ids of the added documents, which writes
  fail, and the server time.
\<close>

record import_env =
  new_ids :: "nat \<Rightarrow> string"
  add_throws :: "nat \<Rightarrow> bool"
  import_time :: timestamp

text \<open>\<open>selectedEvent.qr_prefix || 'QRP'\<close>.\<close>

definition prefix_of :: "event \<Rightarrow> string" where
  "prefix_of ev = (case qr_prefix ev of None \<Rightarrow> ''QRP'' | Some x \<Rightarrow> or_default x ''QRP'')"

text \<open>The guests of a pasted text: the non-null rows of its lines.\<close>

definition bulk_guests :: "event \<Rightarrow> string \<Rightarrow> timestamp \<Rightarrow> (nat \<Rightarrow> real) \<Rightarrow> nat \<Rightarrow> string \<Rightarrow> pass list" where
  "bulk_guests ev sel t rnd k text =
     List.map_filter (\<lambda>g. g)
       (guest_rows sel (prefix_of ev) t rnd k (js_split (CHR 0x0A) (trim text)))"

definition handleBulkImport :: "import_env \<Rightarrow> (nat \<Rightarrow> real) \<Rightarrow> nat \<Rightarrow> guests_ui \<times> store \<Rightarrow> guests_ui \<times> store \<times> import_alert option" where
  "handleBulkImport env rnd k st =
     (case st of (ui, db) \<Rightarrow>
        if g_selectedEventId ui = [] \<or> trim (bulkText ui) = [] then (ui, db, None)
        else
          (case find (\<lambda>e. ev_id e = g_selectedEventId ui) (g_events ui) of
             None \<Rightarrow> (ui, db, None)
           | Some ev \<Rightarrow>
               (let guests = bulk_guests ev (g_selectedEventId ui) (import_time env) rnd k (bulkText ui)
                in if guests = [] then (ui, db, Some No_valid_guests)
                   else
                     (let db' = db\<lparr>passes := add_all (new_ids env) (add_throws env) 0 guests (passes db)\<rparr>
                      in if list_ex (add_throws env) [0..<length guests] then (ui, db', Some Import_error)
                         else (ui\<lparr>bulkText := [], showBulkImport := False\<rparr>, db',
                               Some (Imported (length guests)))))))"

section \<open>Invitation mail (the helpers \<open>generateInvitationHTML\<close> and \<open>sendGmail\<close>)\<close>

definition nl :: string where
  "nl = [CHR 0x0A]"

record invitation =
  h_guestName :: string
  h_eventTitle :: string
  h_eventDescription :: "string option"
  h_message :: string
  h_qrCodeDataUrl :: string
  h_bgColor :: "string option"
  h_accentColor :: "string option"

text \<open>The two parameters with a default value, used when the field is absent.\<close>

definition bgColor :: "invitation \<Rightarrow> string" where
  "bgColor p = (case h_bgColor p of None \<Rightarrow> ''#ffffff'' | Some c \<Rightarrow> c)"

definition accentColor :: "invitation \<Rightarrow> string" where
  "accentColor p = (case h_accentColor p of None \<Rightarrow> ''#FFD43B'' | Some c \<Rightarrow> c)"

text \<open>The paragraph that is present when the event has a non-empty description.\<close>

definition description_block :: "invitation \<Rightarrow> string" where
  \<open>description_block p =
     (case h_eventDescription p of
        None \<Rightarrow> []
      | Some d \<Rightarrow>
          if d = [] then []
          else ''<p style="margin: 10px 0 0; color: #333; font-size: 16px;">'' @ d @ ''</p>'')\<close>

text \<open>
  The template, line by line: the part before the message paragraph's text and the part
  after it, without the line break that opens the template and without the line break
  and two spaces that close it.
\<close>

definition html_head :: "invitation \<Rightarrow> string" where
  \<open>html_head p =
      ''<!DOCTYPE html>'' @ nl @
      ''<html>'' @ nl @
      ''<head>'' @ nl @
      ''  <meta charset="utf-8">'' @ nl @
      ''  <meta name="viewport" content="width=device-width, initial-scale=1.0">'' @ nl @
      ''  <title>'' @ h_eventTitle p @ '' - Invitation</title>'' @ nl @
      ''</head>'' @ nl @
      ''<body style="margin: 0; padding: 0; font-family: -apple-system, BlinkMacSystemFont, 'Segoe UI', Roboto, 'Helvetica Neue', Arial, sans-serif; background-color: #f5f5f7;">'' @ nl @
      ''  <table width="100%" cellpadding="0" cellspacing="0" style="background-color: #f5f5f7; padding: 40px 20px;">'' @ nl @
      ''    <tr>'' @ nl @
      ''      <td align="center">'' @ nl @
      ''        <table width="600" cellpadding="0" cellspacing="0" style="background-color: '' @ bgColor p @ ''; border-radius: 24px; overflow: hidden; box-shadow: 0 4px 6px rgba(0,0,0,0.1);">'' @ nl @
      ''          <!-- Header -->'' @ nl @
      ''          <tr>'' @ nl @
      ''            <td style="background: linear-gradient(135deg, '' @ accentColor p @ '' 0%, '' @ accentColor p @ ''dd 100%); padding: 40px 30px; text-align: center;">'' @ nl @
      ''              <h1 style="margin: 0; color: #1a1a1a; font-size: 32px; font-weight: bold;">'' @ h_eventTitle p @ ''</h1>'' @ nl @
      ''              '' @ description_block p @ nl @
      ''            </td>'' @ nl @
      ''          </tr>'' @ nl @
      ''          '' @ nl @
      ''          <!-- Content -->'' @ nl @
      ''          <tr>'' @ nl @
      ''            <td style="padding: 40px 30px;">'' @ nl @
      ''              <p style="margin: 0 0 20px; color: #333; font-size: 16px; line-height: 1.6; white-space: pre-wrap;">''\<close>

definition html_tail :: "invitation \<Rightarrow> string" where
  \<open>html_tail p =
      ''</p>'' @ nl @
      ''              '' @ nl @
      ''              <!-- QR Code -->'' @ nl @
      ''              <table width="100%" cellpadding="0" cellspacing="0" style="margin: 30px 0;">'' @ nl @
      ''                <tr>'' @ nl @
      ''                  <td align="center" style="background-color: #f9f9f9; padding: 30px; border-radius: 16px;">'' @ nl @
      ''                    <p style="margin: 0 0 20px; color: #666; font-size: 14px; font-weight: 600; text-transform: uppercase; letter-spacing: 1px;">Your QR Pass</p>'' @ nl @
      ''                    <img src="'' @ h_qrCodeDataUrl p @ ''" alt="QR Code" style="width: 250px; height: 250px; display: block; margin: 0 auto;" />'' @ nl @
      ''                    <p style="margin: 20px 0 0; color: #999; font-size: 12px;">Show this QR code at the entrance</p>'' @ nl @
      ''                  </td>'' @ nl @
      ''                </tr>'' @ nl @
      ''              </table>'' @ nl @
      ''              '' @ nl @
      ''              <p style="margin: 30px 0 0; color: #666; font-size: 14px; line-height: 1.6;">'' @ nl @
      ''                Please save this email or take a screenshot of the QR code. You'll need it to enter the event.'' @ nl @
      ''              </p>'' @ nl @
      ''            </td>'' @ nl @
      ''          </tr>'' @ nl @
      ''          '' @ nl @
      ''          <!-- Footer -->'' @ nl @
      ''          <tr>'' @ nl @
      ''            <td style="background-color: #f9f9f9; padding: 20px 30px; text-align: center; border-top: 1px solid #e5e5e5;">'' @ nl @
      ''              <p style="margin: 0; color: #999; font-size: 12px;">Powered by Mangrove Esports</p>'' @ nl @
      ''            </td>'' @ nl @
      ''          </tr>'' @ nl @
      ''        </table>'' @ nl @
      ''      </td>'' @ nl @
      ''    </tr>'' @ nl @
      ''  </table>'' @ nl @
      ''</body>'' @ nl @
      ''</html>''\<close>

definition generateInvitationHTML :: "invitation \<Rightarrow> string" where
  "generateInvitationHTML p =
     trim (nl @ html_head p @ js_replace (h_message p) ''{NAME}'' (h_guestName p)
             @ html_tail p @ nl @ ''  '')"

text \<open>The argument of \<open>sendGmail\<close>.\<close>

record gmail_params =
  mail_to :: string
  mail_subject :: string
  mail_body :: string
  mail_html :: "string option"

text \<open>
  What the mail service does with one request: there is no access token; or the request
  (or the reading of the reply) throws an error with a message; or the reply is a
  success; or it is an error reply, whose message is the reply's error message or else
  its status text.
\<close>

datatype gmail_response = No_access_token | Throws string | Response_ok | Response_error string


text \<open>
  The text that \<open>sendGmail\<close> encodes and posts: the headers, an empty line, and the HTML
  when there is a non-empty one, the plain body otherwise. Lines end in CR LF.
\<close>

definition crlf :: string where
  "crlf = [CHR 0x0D, CHR 0x0A]"

definition gmail_message :: "gmail_params \<Rightarrow> string" where
  "gmail_message params =
     ''To: '' @ mail_to params @ crlf @
     ''Subject: '' @ mail_subject params @ crlf @
     ''MIME-Version: 1.0'' @ crlf @
     ''Content-Type: text/html; charset=utf-8'' @ crlf @
     crlf @
     (case mail_html params of
        None \<Rightarrow> mail_body params
      | Some h \<Rightarrow> if h = [] then mail_body params else h)"

section \<open>Mail page: \<open>fetchPasses\<close> and \<open>handleSendEmails\<close>\<close>

record email_status =
  total :: nat
  sent :: nat
  failed :: nat
  current :: string
  inProgress :: bool

text \<open>
  The page state: the events fetched, the selected event, the \<open>passes\<close> state (the
  passes still to be invited, as last fetched), the subject and message templates and
  the progress counters.
\<close>

record mail_ui =
  m_events :: "event list"
  selectedEventId :: string
  ui_passes :: "pass list"
  subject :: string
  ui_message :: string
  m_status :: email_status

text \<open>
  The page together with the store, the record of the calls made to \<open>sendGmail\<close>, each
  with the id of the pass whose turn it was, and the number of calls of \<open>fetchPasses\<close>
  whose query the store has not answered yet.
\<close>

record mail_state =
  m_ui :: mail_ui
  m_db :: store
  gmail_calls :: "(string \<times> gmail_params) list"
  fetches_pending :: nat

text \<open>
  \<open>fetchPasses\<close> is asynchronous. A call of it runs up to \<open>await getDocs(q)\<close>: it returns
  at once without a selected event, and otherwise leaves its query with the store. A
  caller that does not await the call goes on from there.
\<close>

definition fetchPasses :: "mail_state \<Rightarrow> mail_state" where
  "fetchPasses st =
     (if selectedEventId (m_ui st) = [] then st
      else st\<lparr>fetches_pending := Suc (fetches_pending st)\<rparr>)"

text \<open>
  The rest of \<open>fetchPasses\<close>, run when the store answers a pending query: the passes of
  the selected event that have no \<open>sent_at\<close> become the \<open>passes\<close> state; when the query is
  rejected the error is caught and nothing is set. (The answer lists the store as it is
  when the query is answered; nothing below changes the store or the selection between
  the call and the answer.)
\<close>

definition fetchPasses_resumes :: "bool \<Rightarrow> mail_state \<Rightarrow> mail_state" where
  "fetchPasses_resumes getDocs_fails st =
     (if fetches_pending st = 0 then st
      else if getDocs_fails then st\<lparr>fetches_pending := fetches_pending st - 1\<rparr>
      else st\<lparr>fetches_pending := fetches_pending st - 1,
              m_ui := (m_ui st)\<lparr>ui_passes :=
                filter (\<lambda>p. sent_at p = None)
                  (filter (\<lambda>p. event_id p = selectedEventId (m_ui st)) (passes (m_db st)))\<rparr>\<rparr>)"

text \<open>
  What the world does during one turn of the loop: the rendering of the code image (it
  throws, or gives a data URL), the mail service's answer, whether the update of the
  pass, the writing of the \<open>sent\<close> log entry and the writing of the failure log entry
  throw, and the server time of the writes.
\<close>

record send_env =
  qr_throws :: "string option"
  qr_data_url :: string
  gmail :: gmail_response
  mark_sent_throws :: "string option"
  sent_log_throws :: "string option"
  failure_log_throws :: bool
  sent_time :: timestamp
  logged_time :: timestamp

text \<open>The request built for one pass (the arguments of \<open>sendGmail\<close>).\<close>

definition invitation_params :: "mail_ui \<Rightarrow> event \<Rightarrow> string \<Rightarrow> pass \<Rightarrow> gmail_params" where
  "invitation_params u ev qrCodeDataUrl p =
     \<lparr>mail_to = guest_email p,
      mail_subject = subject u,
      mail_body = js_replace (ui_message u) ''{NAME}'' (guest_name p),
      mail_html = Some (generateInvitationHTML
        \<lparr>h_guestName = guest_name p, h_eventTitle = title ev,
         h_eventDescription = description ev, h_message = ui_message u,
         h_qrCodeDataUrl = qrCodeDataUrl, h_bgColor = bg_color ev,
         h_accentColor = accent_color ev\<rparr>)\<rparr>"

text \<open>\<open>updateDoc\<close> of \<open>sent_at\<close> on one pass document, by id.\<close>

definition mark_sent :: "string \<Rightarrow> timestamp \<Rightarrow> pass list \<Rightarrow> pass list" where
  "mark_sent pid t ps = map (\<lambda>q. if pass_id q = pid then q\<lparr>sent_at := Some t\<rparr> else q) ps"



text \<open>The updates of the progress counters.\<close>

definition set_status :: "(email_status \<Rightarrow> email_status) \<Rightarrow> mail_state \<Rightarrow> mail_state" where
  "set_status f st = st\<lparr>m_ui := (m_ui st)\<lparr>m_status := f (m_status (m_ui st))\<rparr>\<rparr>"




text \<open>
  What the world does during one run of the handler: the answer to the confirmation
  dialog, and the turns of the loop.
\<close>

record dispatch_env =
  confirmed :: bool
  turn :: "nat \<Rightarrow> send_env"





section \<open>Example data\<close>

text \<open>
  A small store used to run the definitions: one event, and two passes of it, the first
  not yet scanned and not yet invited, the second invited and scanned.
\<close>

definition demo_event :: event where
  "demo_event =
     \<lparr>ev_id = ''ev1'', admin_id = ''admin1'', title = ''Launch'',
      description = Some ''Doors open at 7'', logo_url = None, bg_image_url = None,
      bg_color = None, accent_color = None, qr_prefix = Some ''EVTX'',
      ev_created_at = Some 1, ev_updated_at = Some 1\<rparr>"

definition ana :: pass where
  "ana =
     \<lparr>pass_id = ''p1'', event_id = ''ev1'', code = ''EVTX-AB12#Z'', guest_name = ''Ana'',
      guest_email = ''ana@x.com'', sheet_id = None, sent_at = None, used = False,
      scanned_at = None, scanned_by = None, pdf_url = None, created_at = Some 2\<rparr>"

definition bob :: pass where
  "bob =
     \<lparr>pass_id = ''p2'', event_id = ''ev1'', code = ''EVTX-QQQQQQ'', guest_name = ''Bob'',
      guest_email = ''bob@x.com'', sheet_id = None, sent_at = Some 20, used = True,
      scanned_at = Some 50, scanned_by = Some ''op1'', pdf_url = None, created_at = Some 3\<rparr>"

definition demo_db :: store where
  "demo_db = \<lparr>events = [demo_event], passes = [ana, bob], scan_logs = [], email_logs = []\<rparr>"

text \<open>A scanner page at rest, and a run of the handler in which no store call fails.\<close>

definition idle_ui :: scanner_ui where
  "idle_ui = \<lparr>isProcessing = False, lastScannedCode = [], result = None\<rparr>"

definition gate_env :: scan_env where
  "gate_env =
     \<lparr>getDocs_throws = None, getDoc_throws = False, updateDoc_throws = False,
      addDoc_throws = False, update_time = 100, log_time = 101\<rparr>"

text \<open>
  A guests page on which three lines have been pasted (the second has no name, the third
  no email), and an import in which no write fails; the random source always draws 0.37.
\<close>

definition pasted_ui :: guests_ui where
  "pasted_ui =
     \<lparr>g_events = [demo_event], g_selectedEventId = ''ev1'',
      bulkText = ''Cy, cy@x.com'' @ [CHR 0x0A] @ '', dee@x.com'' @ [CHR 0x0A] @ ''Eve'',
      showBulkImport = True\<rparr>"

definition import_ok :: import_env where
  "import_ok = \<lparr>new_ids = (\<lambda>j. replicate (Suc j) CHR ''n''), add_throws = (\<lambda>j. False),
                import_time = 7\<rparr>"

definition steady :: "nat \<Rightarrow> real" where
  "steady i = 37 / 100"

text \<open>
  A mail page for the example event, with a message that names the guest twice; and two
  turns of the loop: one in which the mail service answers that the address was not
  found, one in which the mail is accepted.
\<close>

definition mail_page :: mail_ui where
  "mail_page =
     \<lparr>m_events = [demo_event], selectedEventId = ''ev1'', ui_passes = [ana],
      subject = ''Your Event Invitation'',
      ui_message = ''Dear {NAME}, your pass is inside. See you, {NAME}!'',
      m_status = \<lparr>total = 0, sent = 0, failed = 0, current = [], inProgress = False\<rparr>\<rparr>"




text \<open>
  A third pass, not yet invited; a mail page with two passes to invite; a run in which
  the first mail is accepted and the second address is not found, and a run in which
  every mail is accepted.
\<close>

definition dee :: pass where
  "dee =
     \<lparr>pass_id = ''p3'', event_id = ''ev1'', code = ''EVTX-7K#7K#'', guest_name = ''Dee'',
      guest_email = ''dee@x.com'', sheet_id = None, sent_at = None, used = False,
      scanned_at = None, scanned_by = None, pdf_url = None, created_at = Some 4\<rparr>"








section \<open>Properties of the code generator\<close>

lemma length_chars: "length chars = 42"
  by (simp add: chars_def)

lemma distinct_chars: "distinct chars"
  by (simp add: chars_def)

lemma charAt_chars:
  assumes "unit_draw r"
  shows "\<exists>c. charAt chars \<lfloor>r * real (length chars)\<rfloor> = [c] \<and> c \<in> set chars"
proof -
  let ?i = "\<lfloor>r * real (length chars)\<rfloor>"
  from assms have "0 \<le> r * 42" and "r * 42 < 42"
    by (simp_all add: unit_draw_def)
  then have "0 \<le> ?i" and "?i < 42"
    by (simp_all add: length_chars floor_less_iff)
  then have in_range: "0 \<le> ?i \<and> ?i < int (length chars)"
    by (simp only: length_chars) simp
  then have "nat ?i < length chars"
    by linarith
  then have "chars ! nat ?i \<in> set chars"
    by (rule nth_mem)
  with in_range show ?thesis
    unfolding charAt_def by simp
qed

lemma code_loop_shape:
  "(\<forall>i<n. unit_draw (rnd (k + i))) \<Longrightarrow>
     length (code_loop rnd k n) = n \<and> set (code_loop rnd k n) \<subseteq> set chars"
proof (induction n)
  case 0
  then show ?case by simp
next
  case (Suc n)
  from Suc.prems have "unit_draw (rnd (k + n))" by simp
  from charAt_chars [OF this] obtain c
    where c: "charAt chars \<lfloor>rnd (k + n) * real (length chars)\<rfloor> = [c]" "c \<in> set chars"
    by blast
  from Suc have "length (code_loop rnd k n) = n \<and> set (code_loop rnd k n) \<subseteq> set chars"
    by simp
  with c show ?case by simp
qed

lemma chars_in_class: "c \<in> set chars \<Longrightarrow> alphabet_class c"
  by (auto simp: chars_def alphabet_class_def)

lemma class_in_chars:
  assumes "alphabet_class c"
  shows "c \<in> set chars"
proof -
  have "map of_char chars = [65..<91] @ [48..<58] @ [64, 35, 36, 37, 38, 42 :: nat]"
    by (simp add: chars_def upt_rec_numeral)
  then have codes:
    "set (map of_char chars) = {65..<91} \<union> {48..<58} \<union> {64, 35, 36, 37, 38, 42 :: nat}"
    by (simp only: set_append set_upt list.set Un_assoc)
  from assms consider "65 \<le> (of_char c :: nat) \<and> (of_char c :: nat) \<le> 90"
    | "48 \<le> (of_char c :: nat) \<and> (of_char c :: nat) \<le> 57" | "c \<in> set ''@#$%&*''"
    by (auto simp: alphabet_class_def Let_def)
  then have "(of_char c :: nat) \<in> set (map of_char chars)"
  proof cases
    case 1
    then show ?thesis unfolding codes by simp
  next
    case 2
    then show ?thesis unfolding codes by simp
  next
    case 3
    then show ?thesis unfolding codes by auto
  qed
  then obtain d where "d \<in> set chars" and "(of_char c :: nat) = of_char d"
    by auto
  then show ?thesis by simp
qed

text \<open>
  C5, as stated, gives the alphabet 43 symbols. The alphabet of the generator, which is
  the one the claim spells out (A to Z, 0 to 9 and the six signs), has 42.
\<close>

theorem alphabet_has_not_43_symbols:
  "length chars \<noteq> 43 \<and> card (set chars) \<noteq> 43 \<and> card (Collect alphabet_class) \<noteq> 43"
proof -
  have "set chars = Collect alphabet_class"
    using chars_in_class class_in_chars by blast
  moreover have "card (set chars) = 42"
    using distinct_card [OF distinct_chars] by (simp add: length_chars)
  ultimately show ?thesis
    by (simp add: length_chars)
qed

text \<open>
  C5 (amended): for every prefix, and whatever the random source draws (each draw at
  least 0 and below 1), the generated code is the prefix, a hyphen and exactly 6
  characters, each of the class \<open>[A-Z0-9@#$%&*]\<close>; the generator's alphabet is exactly
  that class and has 42 symbols, all different.
\<close>

theorem generateUniqueCode_format:
  assumes "\<forall>i<6. unit_draw (rnd (k + i))"
  shows "(\<exists>cs. generateUniqueCode pfx rnd k = pfx @ ''-'' @ cs \<and> length cs = 6
               \<and> list_all alphabet_class cs)
         \<and> set chars = Collect alphabet_class \<and> length chars = 42 \<and> distinct chars"
proof -
  from code_loop_shape [OF assms]
  have "length (code_loop rnd k 6) = 6" and "set (code_loop rnd k 6) \<subseteq> set chars"
    by simp_all
  then have "length (code_loop rnd k 6) = 6 \<and> list_all alphabet_class (code_loop rnd k 6)"
    using chars_in_class by (auto simp: list_all_iff)
  then have "\<exists>cs. generateUniqueCode pfx rnd k = pfx @ ''-'' @ cs \<and> length cs = 6
               \<and> list_all alphabet_class cs"
    unfolding generateUniqueCode_def by blast
  moreover have "set chars = Collect alphabet_class"
    using chars_in_class class_in_chars by blast
  ultimately show ?thesis
    using length_chars distinct_chars by blast
qed

theorem generateUniqueCode_format_witness:
  "unit_draw (37 / 100)
   \<and> generateUniqueCode ''EVTX'' (\<lambda>i::nat. 37 / 100) 0 = ''EVTX-PPPPPP''
   \<and> (\<exists>cs. generateUniqueCode ''EVTX'' (\<lambda>i::nat. 37 / 100) 0 = ''EVTX'' @ ''-'' @ cs \<and> length cs = 6
               \<and> list_all alphabet_class cs)"
proof -
  have h: "\<forall>i<6. unit_draw ((\<lambda>i::nat. 37 / 100 :: real) (0 + i))"
    by (simp add: unit_draw_def)
  have "generateUniqueCode ''EVTX'' (\<lambda>i::nat. 37 / 100) 0 = ''EVTX-PPPPPP''"
    by (simp add: generateUniqueCode_def charAt_def chars_def eval_nat_numeral)
  moreover have "unit_draw (37 / 100)"
    by (simp add: unit_draw_def)
  ultimately show ?thesis
    using generateUniqueCode_format [OF h, of "''EVTX''"] by blast
qed

section \<open>Properties of event deletion\<close>

text \<open>
  C8: deleting an event removes the event document only (and nothing when the operator
  does not confirm or the delete fails): the passes, among them those whose \<open>event_id\<close>
  is the deleted event, the scan log and the email log are those of the store before.
\<close>

theorem handleDeleteEvent_no_cascade:
  "passes (handleDeleteEvent ok fails eventId db) = passes db
   \<and> scan_logs (handleDeleteEvent ok fails eventId db) = scan_logs db
   \<and> email_logs (handleDeleteEvent ok fails eventId db) = email_logs db
   \<and> events (handleDeleteEvent ok fails eventId db)
       = (if ok \<and> \<not> fails then filter (\<lambda>e. ev_id e \<noteq> eventId) (events db) else events db)"
  by (simp add: handleDeleteEvent_def)

section \<open>Properties of the scan handler\<close>

lemma find_by_code:
  "p \<in> set ps \<Longrightarrow> distinct (map code ps) \<Longrightarrow> find (\<lambda>q. code q = code p) ps = Some p"
  by (induction ps) (auto simp: image_iff)

lemma find_pass_unique:
  "unique_codes db \<Longrightarrow> p \<in> set (passes db) \<Longrightarrow> find_pass (code p) db = Some p"
  by (simp add: find_pass_def unique_codes_def find_by_code)

lemma find_pass_none:
  "c \<notin> code ` set (passes db) \<Longrightarrow> find_pass c db = None"
  by (auto simp: find_pass_def find_None_iff)

lemma mark_used_other:
  "pid \<notin> pass_id ` set ps \<Longrightarrow> mark_used pid t uid ps = ps"
  by (induction ps) (auto simp: mark_used_def)

lemma mark_used_split:
  assumes "distinct (map pass_id ps)" and "p \<in> set ps"
  shows "\<exists>ps1 ps2. ps = ps1 @ p # ps2 \<and>
           mark_used (pass_id p) t uid ps
             = ps1 @ p\<lparr>used := True, scanned_at := Some t, scanned_by := Some uid\<rparr> # ps2"
proof -
  from assms(2) obtain ps1 ps2 where ps: "ps = ps1 @ p # ps2"
    by (auto simp: in_set_conv_decomp)
  with assms(1) have "pass_id p \<notin> pass_id ` set ps1" and "pass_id p \<notin> pass_id ` set ps2"
    by auto
  then have "mark_used (pass_id p) t uid ps1 = ps1" and "mark_used (pass_id p) t uid ps2 = ps2"
    by (simp_all add: mark_used_other)
  then have "mark_used (pass_id p) t uid ps
      = ps1 @ p\<lparr>used := True, scanned_at := Some t, scanned_by := Some uid\<rparr> # ps2"
    unfolding ps by (simp add: mark_used_def)
  with ps show ?thesis by blast
qed

text \<open>
  C1: in a store with unique document ids and unique codes, when a signed-in operator
  scans the code of a pass whose \<open>used\<close> flag is false and whose \<open>scanned_at\<close> is
  unset, the scan is accepted by the page (no scan in progress, not the code scanned
  last) and no store call fails, then the attempt is classified \<open>valid\<close>; that pass and
  no other is updated to \<open>used = true\<close>, \<open>scanned_at\<close> the server time of the update and
  \<open>scanned_by\<close> the operator's id; and exactly one entry is appended to the scan log,
  with status \<open>valid\<close> and the id of the pass.
\<close>

theorem valid_scan:
  assumes store: "wf_store db" "unique_codes db"
    and pending: "p \<in> set (passes db)" "\<not> used p" "scanned_at p = None"
    and accepted: "\<not> isProcessing ui" "lastScannedCode ui \<noteq> code p"
    and calls: "getDocs_throws env = None" "\<not> updateDoc_throws env" "\<not> addDoc_throws env"
    and run: "handleScan env (Some uid) (code p) (ui, db) = (ui', db')"
  shows "map_option status (result ui') = Some valid
     \<and> (\<exists>ps1 ps2. passes db = ps1 @ p # ps2 \<and>
           passes db' = ps1 @ p\<lparr>used := True, scanned_at := Some (update_time env),
                                  scanned_by := Some uid\<rparr> # ps2)
     \<and> scan_logs db' = scan_logs db @
           [\<lparr>log_pass_id = Some (pass_id p), scanned_code = code p, scanner_id = uid,
             log_status = valid, log_event_id = or_null (event_id p),
             log_guest_name = or_null (guest_name p), log_scanned_at = log_time env\<rparr>]
     \<and> events db' = events db \<and> email_logs db' = email_logs db"
proof -
  from store pending(1) have id: "pass_id p \<noteq> []" and ids: "distinct (map pass_id (passes db))"
    by (auto simp: wf_store_def list_all_iff)
  have found: "find_pass (code p) db = Some p"
    using store(2) pending(1) by (rule find_pass_unique)
  have body: "scan_body env uid (code p) db =
      (classify (code p) (Some p),
       scan_log_write env uid (code p) (Some p)
         (db\<lparr>passes := mark_used (pass_id p) (update_time env) uid (passes db)\<rparr>))"
    using found calls pending id
    by (simp add: scan_body_def scan_lookup_def scan_update_def Let_def)
  from run accepted body have ui': "result ui' = Some (classify (code p) (Some p))"
    and db': "db' = scan_log_write env uid (code p) (Some p)
         (db\<lparr>passes := mark_used (pass_id p) (update_time env) uid (passes db)\<rparr>)"
    by (auto simp: handleScan_def)
  have "status (classify (code p) (Some p)) = valid"
    using pending by (simp add: classify_def)
  moreover from mark_used_split [OF ids pending(1)]
  have "\<exists>ps1 ps2. passes db = ps1 @ p # ps2 \<and>
           passes db' = ps1 @ p\<lparr>used := True, scanned_at := Some (update_time env),
                                  scanned_by := Some uid\<rparr> # ps2"
    using calls by (simp add: db' scan_log_write_def)
  ultimately show ?thesis
    using calls pending by (simp add: ui' db' scan_log_write_def scan_log_entry_def classify_def)
qed


lemmas demo_defs = demo_db_def demo_event_def ana_def bob_def idle_ui_def gate_env_def
  pasted_ui_def import_ok_def mail_page_def

lemmas scan_defs = handleScan_def scan_body_def scan_lookup_def find_pass_def
  fetch_event_title_def classify_def scan_update_def mark_used_def scan_log_write_def
  scan_log_entry_def or_null_def or_default_def Let_def

theorem valid_scan_witness:
  "wf_store demo_db \<and> unique_codes demo_db \<and> ana \<in> set (passes demo_db)
   \<and> \<not> used ana \<and> scanned_at ana = None
   \<and> \<not> isProcessing idle_ui \<and> lastScannedCode idle_ui \<noteq> code ana
   \<and> getDocs_throws gate_env = None \<and> \<not> updateDoc_throws gate_env \<and> \<not> addDoc_throws gate_env
   \<and> map_option status (result (fst (handleScan gate_env (Some ''op7'') (code ana) (idle_ui, demo_db))))
       = Some valid
   \<and> passes (snd (handleScan gate_env (Some ''op7'') (code ana) (idle_ui, demo_db)))
       = [ana\<lparr>used := True, scanned_at := Some 100, scanned_by := Some ''op7''\<rparr>, bob]
   \<and> scan_logs (snd (handleScan gate_env (Some ''op7'') (code ana) (idle_ui, demo_db)))
       = [\<lparr>log_pass_id = Some ''p1'', scanned_code = ''EVTX-AB12#Z'', scanner_id = ''op7'',
           log_status = valid, log_event_id = Some ''ev1'', log_guest_name = Some ''Ana'',
           log_scanned_at = 101\<rparr>]"
proof -
  let ?r = "handleScan gate_env (Some ''op7'') (code ana) (idle_ui, demo_db)"
  have h: "wf_store demo_db" "unique_codes demo_db" "ana \<in> set (passes demo_db)"
    "\<not> used ana" "scanned_at ana = None"
    "\<not> isProcessing idle_ui" "lastScannedCode idle_ui \<noteq> code ana"
    "getDocs_throws gate_env = None" "\<not> updateDoc_throws gate_env" "\<not> addDoc_throws gate_env"
    by (simp_all add: wf_store_def unique_codes_def demo_defs)
  have run: "?r = (fst ?r, snd ?r)"
    by simp
  from valid_scan [OF h run]
  have "map_option status (result (fst ?r)) = Some valid"
    and "scan_logs (snd ?r) = scan_logs demo_db @
           [\<lparr>log_pass_id = Some (pass_id ana), scanned_code = code ana, scanner_id = ''op7'',
             log_status = valid, log_event_id = or_null (event_id ana),
             log_guest_name = or_null (guest_name ana), log_scanned_at = log_time gate_env\<rparr>]"
    by blast+
  moreover have "passes (snd ?r)
       = [ana\<lparr>used := True, scanned_at := Some 100, scanned_by := Some ''op7''\<rparr>, bob]"
    by (simp add: scan_defs demo_defs)
  ultimately show ?thesis
    using h by (simp add: demo_defs or_null_def)
qed

text \<open>
  C2: when the scanned code is that of a pass with \<open>used\<close> true or \<open>scanned_at\<close> set
  (scan accepted by the page, the lookup and the log write not failing), the attempt is
  classified \<open>already_used\<close>, the result reports the pass's stored \<open>scanned_at\<close> and the
  guest name, no pass is changed (so \<open>scanned_at\<close> is not written a second time), and
  one entry with the id of the pass is appended to the scan log.
\<close>

theorem repeated_scan:
  assumes store: "unique_codes db"
    and scanned: "p \<in> set (passes db)" "used p \<or> scanned_at p \<noteq> None"
    and accepted: "\<not> isProcessing ui" "lastScannedCode ui \<noteq> code p"
    and calls: "getDocs_throws env = None" "\<not> addDoc_throws env"
    and run: "handleScan env (Some uid) (code p) (ui, db) = (ui', db')"
  shows "map_option status (result ui') = Some already_used
     \<and> map_option scannedAt (result ui')
          = Some (Some (case scanned_at p of Some t \<Rightarrow> Date t | None \<Rightarrow> Invalid_Date))
     \<and> map_option guestName (result ui') = Some (Some (guest_name p))
     \<and> passes db' = passes db
     \<and> scan_logs db' = scan_logs db @
           [\<lparr>log_pass_id = Some (pass_id p), scanned_code = code p, scanner_id = uid,
             log_status = already_used, log_event_id = or_null (event_id p),
             log_guest_name = or_null (guest_name p), log_scanned_at = log_time env\<rparr>]
     \<and> events db' = events db \<and> email_logs db' = email_logs db"
proof -
  have found: "find_pass (code p) db = Some p"
    using store scanned(1) by (rule find_pass_unique)
  have body: "scan_body env uid (code p) db =
      (classify (code p) (Some p), scan_log_write env uid (code p) (Some p) db)"
    using found calls scanned(2)
    by (auto simp: scan_body_def scan_lookup_def scan_update_def Let_def)
  from run accepted body have ui': "result ui' = Some (classify (code p) (Some p))"
    and db': "db' = scan_log_write env uid (code p) (Some p) db"
    by (auto simp: handleScan_def)
  show ?thesis
    using calls scanned(2)
    by (auto simp: ui' db' scan_log_write_def scan_log_entry_def classify_def)
qed

text \<open>
  The second of two scans of the same code, the operator having dismissed the first
  result: the first scan is \<open>valid\<close> and stamps the pass with time 100, the second is
  \<open>already_used\<close> and reports that time.
\<close>

theorem repeated_scan_witness:
  "map_option status (result (fst (handleScan gate_env (Some ''op7'') (code ana) (idle_ui, demo_db))))
     = Some valid
   \<and> map_option status (result (fst (handleScan (gate_env\<lparr>update_time := 200, log_time := 201\<rparr>)
        (Some ''op7'') (code ana)
        (resume (fst (handleScan gate_env (Some ''op7'') (code ana) (idle_ui, demo_db))),
         snd (handleScan gate_env (Some ''op7'') (code ana) (idle_ui, demo_db))))))
     = Some already_used
   \<and> map_option scannedAt (result (fst (handleScan (gate_env\<lparr>update_time := 200, log_time := 201\<rparr>)
        (Some ''op7'') (code ana)
        (resume (fst (handleScan gate_env (Some ''op7'') (code ana) (idle_ui, demo_db))),
         snd (handleScan gate_env (Some ''op7'') (code ana) (idle_ui, demo_db))))))
     = Some (Some (Date 100))
   \<and> passes (snd (handleScan (gate_env\<lparr>update_time := 200, log_time := 201\<rparr>)
        (Some ''op7'') (code ana)
        (resume (fst (handleScan gate_env (Some ''op7'') (code ana) (idle_ui, demo_db))),
         snd (handleScan gate_env (Some ''op7'') (code ana) (idle_ui, demo_db)))))
     = [ana\<lparr>used := True, scanned_at := Some 100, scanned_by := Some ''op7''\<rparr>, bob]"
proof -
  let ?first = "handleScan gate_env (Some ''op7'') (code ana) (idle_ui, demo_db)"
  let ?env = "gate_env\<lparr>update_time := 200, log_time := 201\<rparr>"
  let ?ana = "ana\<lparr>used := True, scanned_at := Some 100, scanned_by := Some ''op7''\<rparr>"
  let ?r = "handleScan ?env (Some ''op7'') (code ?ana) (resume (fst ?first), snd ?first)"
  have first: "map_option status (result (fst ?first)) = Some valid"
    and db1: "passes (snd ?first) = [?ana, bob]"
    and ui1: "resume (fst ?first) = idle_ui"
    by (simp_all add: scan_defs demo_defs resume_def)
  have h: "unique_codes (snd ?first)" "?ana \<in> set (passes (snd ?first))"
    "used ?ana \<or> scanned_at ?ana \<noteq> None"
    "\<not> isProcessing (resume (fst ?first))" "lastScannedCode (resume (fst ?first)) \<noteq> code ?ana"
    "getDocs_throws ?env = None" "\<not> addDoc_throws ?env"
    unfolding ui1 by (simp_all add: unique_codes_def db1) (simp_all add: demo_defs)
  have run: "?r = (fst ?r, snd ?r)"
    by simp
  from repeated_scan [OF h run]
  have "map_option status (result (fst ?r)) = Some already_used"
    and "map_option scannedAt (result (fst ?r)) = Some (Some (Date 100))"
    and "passes (snd ?r) = [?ana, bob]"
    by (simp_all add: db1)
  with first show ?thesis
    by simp
qed

text \<open>
  C3: when the scanned code is the code of no pass (scan accepted by the page, the
  lookup and the log write not failing), the attempt is classified \<open>invalid\<close> and the
  store afterwards is the store before with exactly one more scan log entry, whose pass
  reference is null: no pass and no event is changed.
\<close>

theorem unknown_code_scan:
  assumes unknown: "c \<notin> code ` set (passes db)"
    and accepted: "\<not> isProcessing ui" "lastScannedCode ui \<noteq> c"
    and calls: "getDocs_throws env = None" "\<not> addDoc_throws env"
    and run: "handleScan env (Some uid) c (ui, db) = (ui', db')"
  shows "map_option status (result ui') = Some invalid
     \<and> db' = db\<lparr>scan_logs := scan_logs db @
           [\<lparr>log_pass_id = None, scanned_code = c, scanner_id = uid,
             log_status = invalid, log_event_id = None,
             log_guest_name = None, log_scanned_at = log_time env\<rparr>]\<rparr>"
proof -
  have "find_pass c db = None"
    using unknown by (rule find_pass_none)
  with calls have "scan_body env uid c db =
      (classify c None, scan_log_write env uid c None db)"
    by (simp add: scan_body_def scan_lookup_def scan_update_def Let_def)
  with run accepted have "result ui' = Some (classify c None)"
    and "db' = scan_log_write env uid c None db"
    by (auto simp: handleScan_def)
  then show ?thesis
    using calls by (simp add: scan_log_write_def scan_log_entry_def classify_def)
qed

theorem unknown_code_scan_witness:
  "''ZZZZ-000000'' \<notin> code ` set (passes demo_db)
   \<and> \<not> isProcessing idle_ui \<and> lastScannedCode idle_ui \<noteq> ''ZZZZ-000000''
   \<and> getDocs_throws gate_env = None \<and> \<not> addDoc_throws gate_env
   \<and> map_option status (result (fst (handleScan gate_env (Some ''op7'') ''ZZZZ-000000'' (idle_ui, demo_db))))
       = Some invalid
   \<and> snd (handleScan gate_env (Some ''op7'') ''ZZZZ-000000'' (idle_ui, demo_db))
       = demo_db\<lparr>scan_logs :=
           [\<lparr>log_pass_id = None, scanned_code = ''ZZZZ-000000'', scanner_id = ''op7'',
             log_status = invalid, log_event_id = None, log_guest_name = None,
             log_scanned_at = 101\<rparr>]\<rparr>"
proof -
  let ?r = "handleScan gate_env (Some ''op7'') ''ZZZZ-000000'' (idle_ui, demo_db)"
  have h: "''ZZZZ-000000'' \<notin> code ` set (passes demo_db)"
    "\<not> isProcessing idle_ui" "lastScannedCode idle_ui \<noteq> ''ZZZZ-000000''"
    "getDocs_throws gate_env = None" "\<not> addDoc_throws gate_env"
    by (simp_all add: demo_defs)
  have run: "?r = (fst ?r, snd ?r)"
    by simp
  from unknown_code_scan [OF h run] h show ?thesis
    by (simp add: demo_defs)
qed

section \<open>Properties of two scanner devices on one store\<close>

lemma count_devices: "count_list ds Gate1 + count_list ds Gate2 = length ds"
proof (induction ds)
  case Nil
  then show ?case by simp
next
  case (Cons d ds)
  then show ?case by (cases d) simp_all
qed

lemma device_univ: "set ds \<subseteq> set [Gate1, Gate2]"
proof
  fix d assume "d \<in> set ds"
  show "d \<in> set [Gate1, Gate2]" by (cases d) simp_all
qed

lemma complete_list:
  "filter complete (List.n_lists 6 [Gate1, Gate2]) =
     [[Gate2, Gate2, Gate2, Gate1, Gate1, Gate1],
      [Gate2, Gate2, Gate1, Gate2, Gate1, Gate1],
      [Gate2, Gate1, Gate2, Gate2, Gate1, Gate1],
      [Gate1, Gate2, Gate2, Gate2, Gate1, Gate1],
      [Gate2, Gate2, Gate1, Gate1, Gate2, Gate1],
      [Gate2, Gate1, Gate2, Gate1, Gate2, Gate1],
      [Gate1, Gate2, Gate2, Gate1, Gate2, Gate1],
      [Gate2, Gate1, Gate1, Gate2, Gate2, Gate1],
      [Gate1, Gate2, Gate1, Gate2, Gate2, Gate1],
      [Gate1, Gate1, Gate2, Gate2, Gate2, Gate1],
      [Gate2, Gate2, Gate1, Gate1, Gate1, Gate2],
      [Gate2, Gate1, Gate2, Gate1, Gate1, Gate2],
      [Gate1, Gate2, Gate2, Gate1, Gate1, Gate2],
      [Gate2, Gate1, Gate1, Gate2, Gate1, Gate2],
      [Gate1, Gate2, Gate1, Gate2, Gate1, Gate2],
      [Gate1, Gate1, Gate2, Gate2, Gate1, Gate2],
      [Gate2, Gate1, Gate1, Gate1, Gate2, Gate2],
      [Gate1, Gate2, Gate1, Gate1, Gate2, Gate2],
      [Gate1, Gate1, Gate2, Gate1, Gate2, Gate2],
      [Gate1, Gate1, Gate1, Gate2, Gate2, Gate2]]"
  by code_simp

lemma complete_schedules:
  assumes "complete ds"
  shows "ds \<in> set
     [[Gate2, Gate2, Gate2, Gate1, Gate1, Gate1],
      [Gate2, Gate2, Gate1, Gate2, Gate1, Gate1],
      [Gate2, Gate1, Gate2, Gate2, Gate1, Gate1],
      [Gate1, Gate2, Gate2, Gate2, Gate1, Gate1],
      [Gate2, Gate2, Gate1, Gate1, Gate2, Gate1],
      [Gate2, Gate1, Gate2, Gate1, Gate2, Gate1],
      [Gate1, Gate2, Gate2, Gate1, Gate2, Gate1],
      [Gate2, Gate1, Gate1, Gate2, Gate2, Gate1],
      [Gate1, Gate2, Gate1, Gate2, Gate2, Gate1],
      [Gate1, Gate1, Gate2, Gate2, Gate2, Gate1],
      [Gate2, Gate2, Gate1, Gate1, Gate1, Gate2],
      [Gate2, Gate1, Gate2, Gate1, Gate1, Gate2],
      [Gate1, Gate2, Gate2, Gate1, Gate1, Gate2],
      [Gate2, Gate1, Gate1, Gate2, Gate1, Gate2],
      [Gate1, Gate2, Gate1, Gate2, Gate1, Gate2],
      [Gate1, Gate1, Gate2, Gate2, Gate1, Gate2],
      [Gate2, Gate1, Gate1, Gate1, Gate2, Gate2],
      [Gate1, Gate2, Gate1, Gate1, Gate2, Gate2],
      [Gate1, Gate1, Gate2, Gate1, Gate2, Gate2],
      [Gate1, Gate1, Gate1, Gate2, Gate2, Gate2]]"
proof -
  from assms count_devices [of ds] have "length ds = 6"
    by (simp add: complete_def)
  with device_univ [of ds] have "ds \<in> set (List.n_lists 6 [Gate1, Gate2])"
    unfolding set_n_lists by blast
  with assms have "ds \<in> set (filter complete (List.n_lists 6 [Gate1, Gate2]))"
    by simp
  then show ?thesis
    by (simp only: complete_list)
qed

text \<open>The copy of the code's pass that a lookup returns, before and after the update.\<close>

lemma find_pass_marked:
  assumes "wf_store db" "unique_codes db" "p \<in> set (passes db)"
  shows "find_pass (code p) (db\<lparr>passes := mark_used (pass_id p) t uid (passes db)\<rparr>)
           = Some (p\<lparr>used := True, scanned_at := Some t, scanned_by := Some uid\<rparr>)"
proof -
  let ?p = "p\<lparr>used := True, scanned_at := Some t, scanned_by := Some uid\<rparr>"
  from assms(1) have "distinct (map pass_id (passes db))"
    by (simp add: wf_store_def)
  from mark_used_split [OF this assms(3), of t uid] obtain ps1 ps2
    where ps: "passes db = ps1 @ p # ps2"
      and ms: "mark_used (pass_id p) t uid (passes db) = ps1 @ ?p # ps2"
    by blast
  from assms(2) have "distinct (map code (ps1 @ ?p # ps2))"
    by (simp add: unique_codes_def ps)
  moreover have "?p \<in> set (ps1 @ ?p # ps2)"
    by simp
  ultimately have "find (\<lambda>q. code q = code ?p) (ps1 @ ?p # ps2) = Some ?p"
    by (rule find_by_code [rotated])
  then show ?thesis
    by (simp add: find_pass_def ms)
qed

lemma find_pass_logged:
  "find_pass c (scan_log_write env uid c' found db) = find_pass c db"
  by (simp add: find_pass_def scan_log_write_def)

lemma step_lookup:
  "getDocs_throws (ss_env s) = None \<Longrightarrow> phase s = Lookup \<Longrightarrow>
     session_step s db = (s\<lparr>phase := Update (find_pass (ss_code s) db)\<rparr>, db)"
  by (simp add: session_step_def scan_lookup_def split: option.splits)

lemma step_update:
  "phase s = Update found \<Longrightarrow>
     session_step s db = (s\<lparr>phase := Log found\<rparr>, scan_update (ss_env s) (ss_uid s) (ss_code s) found db)"
  by (simp add: session_step_def)

lemma step_log:
  "phase s = Log found \<Longrightarrow>
     session_step s db = (s\<lparr>phase := Shown (classify (ss_code s) found)\<rparr>,
        scan_log_write (ss_env s) (ss_uid s) (ss_code s) found db)"
  by (simp add: session_step_def)

lemma update_pending:
  "\<not> used p \<Longrightarrow> scanned_at p = None \<Longrightarrow> pass_id p \<noteq> [] \<Longrightarrow> \<not> updateDoc_throws env \<Longrightarrow>
     scan_update env uid c (Some p) db
       = db\<lparr>passes := mark_used (pass_id p) (update_time env) uid (passes db)\<rparr>"
  by (simp add: scan_update_def)

lemma update_used:
  "used q \<Longrightarrow> scan_update env uid c (Some q) db = db"
  by (simp add: scan_update_def)

text \<open>The outcome of a complete schedule, as a function of the schedule.\<close>

lemma two_scans_on_schedule:
  assumes store: "wf_store db" "unique_codes db"
    and pending: "p \<in> set (passes db)" "\<not> used p" "scanned_at p = None"
    and calls1: "getDocs_throws e1 = None" "\<not> updateDoc_throws e1"
    and calls2: "getDocs_throws e2 = None" "\<not> updateDoc_throws e2"
    and ds: "ds \<in> set
     [[Gate2, Gate2, Gate2, Gate1, Gate1, Gate1],
      [Gate2, Gate2, Gate1, Gate2, Gate1, Gate1],
      [Gate2, Gate1, Gate2, Gate2, Gate1, Gate1],
      [Gate1, Gate2, Gate2, Gate2, Gate1, Gate1],
      [Gate2, Gate2, Gate1, Gate1, Gate2, Gate1],
      [Gate2, Gate1, Gate2, Gate1, Gate2, Gate1],
      [Gate1, Gate2, Gate2, Gate1, Gate2, Gate1],
      [Gate2, Gate1, Gate1, Gate2, Gate2, Gate1],
      [Gate1, Gate2, Gate1, Gate2, Gate2, Gate1],
      [Gate1, Gate1, Gate2, Gate2, Gate2, Gate1],
      [Gate2, Gate2, Gate1, Gate1, Gate1, Gate2],
      [Gate2, Gate1, Gate2, Gate1, Gate1, Gate2],
      [Gate1, Gate2, Gate2, Gate1, Gate1, Gate2],
      [Gate2, Gate1, Gate1, Gate2, Gate1, Gate2],
      [Gate1, Gate2, Gate1, Gate2, Gate1, Gate2],
      [Gate1, Gate1, Gate2, Gate2, Gate1, Gate2],
      [Gate2, Gate1, Gate1, Gate1, Gate2, Gate2],
      [Gate1, Gate2, Gate1, Gate1, Gate2, Gate2],
      [Gate1, Gate1, Gate2, Gate1, Gate2, Gate2],
      [Gate1, Gate1, Gate1, Gate2, Gate2, Gate2]]"
  shows "(case interleave ds (session_start e1 u1 (code p), session_start e2 u2 (code p), db) of
            (a, b, db') \<Rightarrow> (shown_status a, shown_status b))
         = (if racy ds then (Some valid, Some valid)
            else if the (call_index Gate1 0 ds) < the (call_index Gate2 0 ds)
            then (Some valid, Some already_used) else (Some already_used, Some valid))"
proof -
  from store pending(1) have id: "pass_id p \<noteq> []"
    by (auto simp: wf_store_def list_all_iff)
  note found = find_pass_unique [OF store(2) pending(1)]
  note marked = find_pass_marked [OF store pending(1)]
  note steps = step_lookup step_update step_log session_start_def
    update_pending [OF pending(2,3) id] update_used find_pass_logged
  from ds show ?thesis
    unfolding list.set insert_iff empty_iff
    by (elim disjE)
       (simp_all add: steps found marked calls1 calls2 racy_def shown_status_def classify_def pending)
qed


lemma session_is_scan_body:
  "(case session_step (session_start env uid c) db of (s1, db1) \<Rightarrow>
      case session_step s1 db1 of (s2, db2) \<Rightarrow>
        case session_step s2 db2 of (s3, db3) \<Rightarrow> (phase s3, db3))
   = (Shown (fst (scan_body env uid c db)), snd (scan_body env uid c db))"
  by (simp add: session_step_def session_start_def scan_body_def Let_def
      split: sum.splits option.splits)

text \<open>
  C4, as stated, fails: the store calls of two devices scanning the code of the pending
  pass of the example store, served in turn, give two \<open>valid\<close> classifications (and the
  pass is stamped twice, the second stamp replacing the first).
\<close>

theorem simultaneous_scans_both_valid:
  "\<not> used ana \<and> scanned_at ana = None \<and> ana \<in> set (passes demo_db)
   \<and> complete [Gate1, Gate2, Gate1, Gate2, Gate1, Gate2]
   \<and> (case interleave [Gate1, Gate2, Gate1, Gate2, Gate1, Gate2]
          (session_start gate_env ''op7'' (code ana),
           session_start (gate_env\<lparr>update_time := 102, log_time := 103\<rparr>) ''op8'' (code ana),
           demo_db) of
        (a, b, db') \<Rightarrow> (shown_status a, shown_status b, map scanned_at (passes db'),
                         map log_status (scan_logs db')))
      = (Some valid, Some valid, [Some 102, Some 50], [valid, valid])"
  by (simp add: complete_def session_step_def session_start_def shown_status_def scan_defs demo_defs)

text \<open>
  C4 (amended): for every pass in \<open>PENDING\<close> state (in a store with unique ids and
  codes, the lookups and updates not failing), when two devices scan its code and the
  store serves the three calls of each in any order, then the two classifications are
  one \<open>valid\<close> and one \<open>already_used\<close> if one device's lookup is served after the other
  device's update (as when the scans follow one another), and they are both \<open>valid\<close> if
  each lookup is served before the other device's update.
\<close>

theorem two_scans:
  assumes store: "wf_store db" "unique_codes db"
    and pending: "p \<in> set (passes db)" "\<not> used p" "scanned_at p = None"
    and calls1: "getDocs_throws e1 = None" "\<not> updateDoc_throws e1"
    and calls2: "getDocs_throws e2 = None" "\<not> updateDoc_throws e2"
    and schedule: "complete ds"
    and run: "interleave ds (session_start e1 u1 (code p), session_start e2 u2 (code p), db)
                = (a, b, db')"
  shows "if racy ds
         then shown_status a = Some valid \<and> shown_status b = Some valid
         else (shown_status a = Some valid \<and> shown_status b = Some already_used)
              \<or> (shown_status a = Some already_used \<and> shown_status b = Some valid)"
  using two_scans_on_schedule [OF store pending calls1 calls2 complete_schedules [OF schedule],
      of u1 u2] run
  by (simp split: if_splits)

theorem two_scans_witness:
  "wf_store demo_db \<and> unique_codes demo_db \<and> ana \<in> set (passes demo_db)
   \<and> \<not> used ana \<and> scanned_at ana = None
   \<and> getDocs_throws gate_env = None \<and> \<not> updateDoc_throws gate_env
   \<and> complete [Gate1, Gate1, Gate1, Gate2, Gate2, Gate2]
   \<and> \<not> racy [Gate1, Gate1, Gate1, Gate2, Gate2, Gate2]
   \<and> shown_status (fst (interleave [Gate1, Gate1, Gate1, Gate2, Gate2, Gate2]
        (session_start gate_env ''op7'' (code ana), session_start gate_env ''op8'' (code ana),
         demo_db))) = Some valid
   \<and> shown_status (fst (snd (interleave [Gate1, Gate1, Gate1, Gate2, Gate2, Gate2]
        (session_start gate_env ''op7'' (code ana), session_start gate_env ''op8'' (code ana),
         demo_db)))) = Some already_used"
proof -
  let ?ds = "[Gate1, Gate1, Gate1, Gate2, Gate2, Gate2]"
  let ?r = "interleave ?ds
        (session_start gate_env ''op7'' (code ana), session_start gate_env ''op8'' (code ana),
         demo_db)"
  have h: "wf_store demo_db" "unique_codes demo_db" "ana \<in> set (passes demo_db)"
    "\<not> used ana" "scanned_at ana = None"
    "getDocs_throws gate_env = None" "\<not> updateDoc_throws gate_env"
    "getDocs_throws gate_env = None" "\<not> updateDoc_throws gate_env"
    "complete ?ds"
    by (simp_all add: wf_store_def unique_codes_def complete_def demo_defs)
  have nr: "\<not> racy ?ds"
    by (simp add: racy_def)
  have run: "?r = (fst ?r, fst (snd ?r), snd (snd ?r))"
    by simp
  have first: "shown_status (fst ?r) = Some valid"
    by (simp add: session_step_def session_start_def shown_status_def scan_defs demo_defs)
  from two_scans [OF h run] nr first
  have "shown_status (fst (snd ?r)) = Some already_used"
    by simp
  with h nr first show ?thesis
    by simp
qed

section \<open>Properties of the string operations\<close>

text \<open>
  The equation of \<open>strip_leading\<close> for the empty string and for a string with a first
  character: in this form it runs on given strings and leaves the others alone.
\<close>

lemma strip_leading_Nil: "strip_leading ws [] = []"
proof -
  have "find (\<lambda>w. w \<noteq> [] \<and> prefix w []) ws = None"
    by (simp add: find_None_iff)
  then show ?thesis
    by (subst strip_leading.simps) simp
qed

lemma strip_leading_Cons:
  "strip_leading ws (c # cs) =
     (case find (\<lambda>w. w \<noteq> [] \<and> prefix w (c # cs)) ws of
        None \<Rightarrow> c # cs
      | Some w \<Rightarrow> strip_leading ws (drop (length w) (c # cs)))"
  by (subst strip_leading.simps) simp

lemmas trim_defs = trim_def white_space_def strip_leading_Nil strip_leading_Cons

text \<open>Names that are white space only are empty after trimming, whatever the white space.\<close>

lemma trim_examples:
  "trim ([CHR 0xC2, CHR 0xA0] @ '' Ana '' @ [CHR 0xE3, CHR 0x80, CHR 0x80, CHR 0x0A]) = ''Ana''"
  "trim [CHR 0xC2, CHR 0xA0] = []"
  "trim [CHR 0xE2, CHR 0x80, CHR 0xA8, CHR 0x09, CHR 0xEF, CHR 0xBB, CHR 0xBF] = []"
  "trim ''a b'' = ''a b''"
  by (simp_all add: trim_defs)

section \<open>Properties of the bulk import\<close>

lemma steady_code: "generateUniqueCode pfx steady k = pfx @ ''-PPPPPP''"
  by (simp add: generateUniqueCode_def steady_def charAt_def chars_def eval_nat_numeral)

lemma guest_rows_parsed:
  "List.map_filter (\<lambda>g. g) (guest_rows sel pfx t rnd k ls) =
     map (\<lambda>i. new_pass sel (generateUniqueCode pfx rnd (k + 6 * i))
                 (fst (List.map_filter parse_line ls ! i))
                 (snd (List.map_filter parse_line ls ! i)) t)
       [0..<length (List.map_filter parse_line ls)]"
proof (induction ls arbitrary: k)
  case Nil
  then show ?case by (simp add: map_filter_simps)
next
  case (Cons l ls)
  show ?case
  proof (cases "parse_line l")
    case None
    with Cons show ?thesis by (simp add: map_filter_simps)
  next
    case (Some ne)
    obtain name email where ne: "ne = (name, email)" by (cases ne)
    from Cons [of "k + 6"] Some ne show ?thesis
      by (simp add: map_filter_simps map_upt_Suc add.assoc del: upt_Suc)
  qed
qed

lemma add_all_appends:
  "(\<And>i. \<not> throws i) \<Longrightarrow>
     add_all ids throws j gs ps = ps @ map (\<lambda>i. (gs ! i)\<lparr>pass_id := ids (j + i)\<rparr>) [0..<length gs]"
proof (induction gs arbitrary: j ps)
  case Nil
  then show ?case by simp
next
  case (Cons g gs)
  from Cons.IH [OF Cons.prems, of "Suc j" "ps @ [g\<lparr>pass_id := ids j\<rparr>]"] Cons.prems
  show ?case
    by (simp add: map_upt_Suc del: upt_Suc)
qed

lemma parse_line_None:
  "parse_line l = None \<longleftrightarrow>
     trim (hd (js_split CHR '','' l)) = []
     \<or> length (js_split CHR '','' l) < 2
     \<or> trim (js_split CHR '','' l ! 1) = []"
  by (auto simp: parse_line_def split: list.splits)

text \<open>
  C9 (amended): in the manual bulk import (an event selected and fetched, some text
  pasted, no write failing), a line is skipped exactly when, split at commas with every
  piece trimmed, its first piece, the name, is empty or its second piece, the email, is
  absent or empty. The other lines, in their order, each produce one new pass in
  \<open>PENDING\<close> state: the \<open>j\<close>-th of them a pass of the selected event with the line's
  name and email, a code generated for the event's prefix from the next six draws,
  \<open>used\<close> false, \<open>sent_at\<close> and \<open>scanned_at\<close> unset. Nothing else in the store changes;
  the alert counts the passes, or says that no line gave a guest.
\<close>

theorem bulk_import:
  assumes selected: "g_selectedEventId ui \<noteq> []"
      "find (\<lambda>e. ev_id e = g_selectedEventId ui) (g_events ui) = Some ev"
    and pasted: "trim (bulkText ui) \<noteq> []"
    and writes: "\<And>j. \<not> add_throws env j"
    and parsed: "parsed = List.map_filter parse_line (js_split (CHR 0x0A) (trim (bulkText ui)))"
    and run: "handleBulkImport env rnd k (ui, db) = (ui', db', alert)"
  shows "(\<forall>l. parse_line l = None \<longleftrightarrow>
            trim (hd (js_split CHR '','' l)) = []
            \<or> length (js_split CHR '','' l) < 2
            \<or> trim (js_split CHR '','' l ! 1) = [])
     \<and> passes db' = passes db @
           map (\<lambda>j. \<lparr>pass_id = new_ids env j, event_id = g_selectedEventId ui,
                       code = generateUniqueCode (prefix_of ev) rnd (k + 6 * j),
                       guest_name = fst (parsed ! j), guest_email = snd (parsed ! j),
                       sheet_id = None, sent_at = None, used = False, scanned_at = None,
                       scanned_by = None, pdf_url = None, created_at = Some (import_time env)\<rparr>)
             [0..<length parsed]
     \<and> alert = Some (if parsed = [] then No_valid_guests else Imported (length parsed))
     \<and> events db' = events db \<and> scan_logs db' = scan_logs db \<and> email_logs db' = email_logs db"
proof -
  let ?guests = "bulk_guests ev (g_selectedEventId ui) (import_time env) rnd k (bulkText ui)"
  have guests: "?guests =
     map (\<lambda>i. new_pass (g_selectedEventId ui) (generateUniqueCode (prefix_of ev) rnd (k + 6 * i))
                 (fst (parsed ! i)) (snd (parsed ! i)) (import_time env))
       [0..<length parsed]"
    unfolding bulk_guests_def parsed by (rule guest_rows_parsed)
  then have len: "length ?guests = length parsed"
    by simp
  have none: "\<not> list_ex (add_throws env) [0..<length ?guests]"
    using writes by (simp add: list_ex_iff)
  have added: "add_all (new_ids env) (add_throws env) 0 ?guests (passes db) =
      passes db @ map (\<lambda>i. (?guests ! i)\<lparr>pass_id := new_ids env i\<rparr>) [0..<length ?guests]"
    using add_all_appends [of "add_throws env" "new_ids env" 0 ?guests "passes db"] writes
    by simp
  have new: "map (\<lambda>i. (?guests ! i)\<lparr>pass_id := new_ids env i\<rparr>) [0..<length parsed] =
      map (\<lambda>j. \<lparr>pass_id = new_ids env j, event_id = g_selectedEventId ui,
                       code = generateUniqueCode (prefix_of ev) rnd (k + 6 * j),
                       guest_name = fst (parsed ! j), guest_email = snd (parsed ! j),
                       sheet_id = None, sent_at = None, used = False, scanned_at = None,
                       scanned_by = None, pdf_url = None, created_at = Some (import_time env)\<rparr>)
             [0..<length parsed]"
    by (rule map_cong) (simp_all add: guests new_pass_def)
  have stored: "add_all (new_ids env) (add_throws env) 0 ?guests (passes db) =
      passes db @
        map (\<lambda>j. \<lparr>pass_id = new_ids env j, event_id = g_selectedEventId ui,
                       code = generateUniqueCode (prefix_of ev) rnd (k + 6 * j),
                       guest_name = fst (parsed ! j), guest_email = snd (parsed ! j),
                       sheet_id = None, sent_at = None, used = False, scanned_at = None,
                       scanned_by = None, pdf_url = None, created_at = Some (import_time env)\<rparr>)
             [0..<length parsed]"
    by (simp only: added len new)
  show ?thesis
  proof (cases "parsed = []")
    case True
    with guests have "?guests = []" by simp
    with run selected pasted True show ?thesis
      by (auto simp: handleBulkImport_def Let_def parse_line_None)
  next
    case False
    with len have "?guests \<noteq> []" by auto
    with run selected pasted none have "db' = db\<lparr>passes :=
        add_all (new_ids env) (add_throws env) 0 ?guests (passes db)\<rparr>"
      and "alert = Some (Imported (length ?guests))"
      by (auto simp: handleBulkImport_def Let_def)
    with False show ?thesis
      by (simp add: stored len parse_line_None)
  qed
qed


lemmas import_defs = handleBulkImport_def bulk_guests_def parse_line_def trim_defs
  prefix_of_def or_default_def new_pass_def map_filter_simps steady_code Let_def

text \<open>
  C9, as stated, fails: among the three pasted lines of the example, the second has an
  email and no name, and it is skipped like the third, which has no email; one pass is
  created.
\<close>

theorem line_with_email_is_skipped:
  "js_split (CHR 0x0A) (trim (bulkText pasted_ui)) = [''Cy, cy@x.com'', '', dee@x.com'', ''Eve'']
   \<and> map trim (js_split CHR '','' '', dee@x.com'') = [[], ''dee@x.com'']
   \<and> parse_line '', dee@x.com'' = None
   \<and> (case handleBulkImport import_ok steady 0 (pasted_ui, demo_db) of
         (ui', db', alert) \<Rightarrow> (map guest_email (passes db'), alert))
       = ([''ana@x.com'', ''bob@x.com'', ''cy@x.com''], Some (Imported 1))"
  by (simp add: import_defs demo_defs)

theorem bulk_import_witness:
  "g_selectedEventId pasted_ui \<noteq> []
   \<and> find (\<lambda>e. ev_id e = g_selectedEventId pasted_ui) (g_events pasted_ui) = Some demo_event
   \<and> trim (bulkText pasted_ui) \<noteq> []
   \<and> (\<forall>j. \<not> add_throws import_ok j)
   \<and> List.map_filter parse_line (js_split (CHR 0x0A) (trim (bulkText pasted_ui)))
        = [(''Cy'', ''cy@x.com'')]
   \<and> passes (fst (snd (handleBulkImport import_ok steady 0 (pasted_ui, demo_db))))
        = [ana, bob,
           \<lparr>pass_id = ''n'', event_id = ''ev1'', code = ''EVTX-PPPPPP'', guest_name = ''Cy'',
            guest_email = ''cy@x.com'', sheet_id = None, sent_at = None, used = False,
            scanned_at = None, scanned_by = None, pdf_url = None, created_at = Some 7\<rparr>]
   \<and> snd (snd (handleBulkImport import_ok steady 0 (pasted_ui, demo_db))) = Some (Imported 1)"
proof -
  let ?r = "handleBulkImport import_ok steady 0 (pasted_ui, demo_db)"
  have h: "g_selectedEventId pasted_ui \<noteq> []"
    "find (\<lambda>e. ev_id e = g_selectedEventId pasted_ui) (g_events pasted_ui) = Some demo_event"
    "trim (bulkText pasted_ui) \<noteq> []"
    "\<And>j. \<not> add_throws import_ok j"
    by (simp_all add: import_defs demo_defs)
  have parsed: "[(''Cy'', ''cy@x.com'')]
      = List.map_filter parse_line (js_split (CHR 0x0A) (trim (bulkText pasted_ui)))"
    by (simp add: import_defs demo_defs)
  have run: "?r = (fst ?r, fst (snd ?r), snd (snd ?r))"
    by simp
  from bulk_import [OF h parsed run]
  have "passes (fst (snd ?r)) = passes demo_db @
           map (\<lambda>j. \<lparr>pass_id = new_ids import_ok j, event_id = g_selectedEventId pasted_ui,
                       code = generateUniqueCode (prefix_of demo_event) steady (0 + 6 * j),
                       guest_name = fst ([(''Cy'', ''cy@x.com'')] ! j),
                       guest_email = snd ([(''Cy'', ''cy@x.com'')] ! j),
                       sheet_id = None, sent_at = None, used = False, scanned_at = None,
                       scanned_by = None, pdf_url = None,
                       created_at = Some (import_time import_ok)\<rparr>)
             [0..<length [(''Cy'', ''cy@x.com'')]]"
    and "snd (snd ?r) = Some (if [(''Cy'', ''cy@x.com'')] = [] then No_valid_guests
                             else Imported (length [(''Cy'', ''cy@x.com'')]))"
    by blast+
  then have "passes (fst (snd ?r))
        = [ana, bob,
           \<lparr>pass_id = ''n'', event_id = ''ev1'', code = ''EVTX-PPPPPP'', guest_name = ''Cy'',
            guest_email = ''cy@x.com'', sheet_id = None, sent_at = None, used = False,
            scanned_at = None, scanned_by = None, pdf_url = None, created_at = Some 7\<rparr>]"
    and "snd (snd ?r) = Some (Imported 1)"
    by (simp_all add: steady_code prefix_of_def or_default_def demo_defs)
  with h parsed show ?thesis
    by simp
qed

text \<open>A line whose name is a no-break space is skipped like one without a name.\<close>

lemma no_break_space_name_is_skipped:
  "parse_line ([CHR 0xC2, CHR 0xA0] @ '', nb@x.com'') = None"
  by (simp add: parse_line_def trim_defs)

text \<open>An import of that line alone adds nothing and tells that no valid guest was found.\<close>

lemma no_break_space_import:
  "handleBulkImport import_ok steady 0
     (pasted_ui\<lparr>bulkText := [CHR 0xC2, CHR 0xA0] @ '', nb@x.com''\<rparr>, demo_db)
   = (pasted_ui\<lparr>bulkText := [CHR 0xC2, CHR 0xA0] @ '', nb@x.com''\<rparr>, demo_db,
      Some No_valid_guests)"
  by (simp add: import_defs demo_defs)

section \<open>Properties of the invitation mail\<close>

lemma first_match_decomp:
  "first_match pat s = Some (b, a) \<Longrightarrow> s = b @ pat @ a"
proof (induction s arbitrary: b)
  case Nil
  then show ?case by (simp split: if_splits)
next
  case (Cons c cs)
  show ?case
  proof (cases "prefix pat (c # cs)")
    case True
    with Cons.prems have "b = []" and "a = drop (length pat) (c # cs)"
      by simp_all
    moreover from True obtain r where "c # cs = pat @ r"
      by (auto simp: prefix_def)
    ultimately show ?thesis by simp
  next
    case False
    with Cons.prems obtain b0 where "first_match pat cs = Some (b0, a)" and "b = c # b0"
      by auto
    with Cons.IH show ?thesis by simp
  qed
qed

lemma first_match_least:
  "first_match pat s = Some (b, a) \<Longrightarrow> s = b' @ pat @ a' \<Longrightarrow> length b \<le> length b'"
proof (induction s arbitrary: b b')
  case Nil
  then show ?case by (simp split: if_splits)
next
  case (Cons c cs)
  show ?case
  proof (cases "prefix pat (c # cs)")
    case True
    with Cons.prems(1) show ?thesis by simp
  next
    case False
    with Cons.prems(1) obtain b0 where b0: "first_match pat cs = Some (b0, a)" "b = c # b0"
      by auto
    from False Cons.prems(2) have "b' \<noteq> []"
      by (auto simp: prefix_def)
    with Cons.prems(2) obtain b1 where "b' = c # b1" and "cs = b1 @ pat @ a'"
      by (cases b') auto
    with Cons.IH [OF b0(1)] b0(2) show ?thesis by simp
  qed
qed

lemma first_match_earliest:
  assumes "s = b @ pat @ a" and "\<And>b' a'. s = b' @ pat @ a' \<Longrightarrow> length b \<le> length b'"
  shows "first_match pat s = Some (b, a)"
  using assms
proof (induction b arbitrary: s)
  case Nil
  show ?case
  proof (cases s)
    case Nil
    with Nil.prems(1) show ?thesis by simp
  next
    case (Cons c cs)
    from Nil.prems(1) have "prefix pat s" and "drop (length pat) s = a"
      by simp_all
    with Cons show ?thesis by simp
  qed
next
  case (Cons c b0)
  from Cons.prems(1) have s: "s = c # (b0 @ pat @ a)"
    by simp
  have "\<not> prefix pat s"
  proof
    assume "prefix pat s"
    then obtain a' where "s = [] @ pat @ a'"
      by (auto simp: prefix_def)
    from Cons.prems(2) [OF this] show False by simp
  qed
  moreover have "first_match pat (b0 @ pat @ a) = Some (b0, a)"
  proof (rule Cons.IH [OF refl])
    fix b' a' assume "b0 @ pat @ a = b' @ pat @ a'"
    then have "s = (c # b') @ pat @ a'"
      by (simp add: s)
    from Cons.prems(2) [OF this] show "length b0 \<le> length b'" by simp
  qed
  ultimately show ?case
    by (simp add: s)
qed

lemma getSubstitution_plain:
  "CHR ''$'' \<notin> set t \<Longrightarrow> getSubstitution m b a t = t"
  by (induction m b a t rule: getSubstitution.induct) auto

lemma js_replace_first:
  assumes "s = b @ pat @ a" and "\<And>b' a'. s = b' @ pat @ a' \<Longrightarrow> length b \<le> length b'"
  shows "js_replace s pat repl = b @ getSubstitution pat b a repl @ a"
  using first_match_earliest [OF assms] by (simp add: js_replace_def)

text \<open>
  Stripping stops at a byte that begins no white space, and goes over a line feed and
  over a space; likewise from the end.
\<close>

lemma strip_leading_stops:
  assumes "\<And>w. w \<in> set ws \<Longrightarrow> w \<noteq> [] \<Longrightarrow> hd w \<noteq> c"
  shows "strip_leading ws (c # cs) = c # cs"
proof -
  have "\<not> (w \<noteq> [] \<and> prefix w (c # cs))" if "w \<in> set ws" for w
  proof (cases w)
    case Nil
    then show ?thesis by simp
  next
    case (Cons a as)
    with assms [OF that] show ?thesis by simp
  qed
  then have "find (\<lambda>w. w \<noteq> [] \<and> prefix w (c # cs)) ws = None"
    unfolding find_None_iff by blast
  then show ?thesis
    by (subst strip_leading.simps) (simp only: option.case)
qed

lemma strip_leading_line_feed:
  "strip_leading white_space (CHR 0x0A # s) = strip_leading white_space s"
  "strip_leading (map rev white_space) (CHR 0x0A # s) = strip_leading (map rev white_space) s"
  by (simp_all add: strip_leading_Cons white_space_def)

lemma strip_leading_blank:
  "strip_leading (map rev white_space) (CHR 0x20 # s) = strip_leading (map rev white_space) s"
  by (simp add: strip_leading_Cons white_space_def)

lemma trim_template:
  assumes "x \<noteq> []" "hd x = CHR ''<''" "last x = CHR ''>''"
  shows "trim (nl @ x @ nl @ ''  '') = x"
proof -
  from assms(1,2) obtain xs where x: "x = CHR ''<'' # xs"
    by (cases x) auto
  have "strip_leading white_space (x @ nl @ ''  '') = x @ nl @ ''  ''"
    unfolding x append_Cons
    by (rule strip_leading_stops) (auto simp: white_space_def)
  then have front: "strip_leading white_space (nl @ x @ nl @ ''  '') = x @ nl @ ''  ''"
    by (simp add: nl_def strip_leading_line_feed)
  from assms(1,3) have "rev x \<noteq> []" and "hd (rev x) = CHR ''>''"
    by (simp_all add: hd_rev)
  then obtain ys where y: "rev x = CHR ''>'' # ys"
    by (cases "rev x") auto
  have "strip_leading (map rev white_space) (rev x) = rev x"
    unfolding y by (rule strip_leading_stops) (auto simp: white_space_def)
  then have "strip_leading (map rev white_space) (rev (x @ nl @ ''  '')) = rev x"
    by (simp add: nl_def strip_leading_line_feed strip_leading_blank)
  with front show ?thesis
    by (simp add: trim_def)
qed

lemma html_head_starts: "html_head p \<noteq> [] \<and> hd (html_head p) = CHR ''<''"
  unfolding html_head_def
  by (simp only: hd_append append_is_Nil_conv list.distinct list.sel if_False simp_thms)

lemma html_tail_ends: "html_tail p \<noteq> [] \<and> last (html_tail p) = CHR ''>''"
  unfolding html_tail_def
  by (simp only: last_append append_is_Nil_conv list.distinct if_False if_True simp_thms last.simps)

text \<open>The rendered HTML is the template around the message, the outer white space gone.\<close>

lemma generateInvitationHTML_eq:
  "generateInvitationHTML p =
     html_head p @ js_replace (h_message p) ''{NAME}'' (h_guestName p) @ html_tail p"
proof -
  let ?x = "html_head p @ js_replace (h_message p) ''{NAME}'' (h_guestName p) @ html_tail p"
  have "?x \<noteq> []" "hd ?x = CHR ''<''" "last ?x = CHR ''>''"
    using html_head_starts [of p] html_tail_ends [of p] by simp_all
  then have "trim (nl @ ?x @ nl @ ''  '') = ?x"
    by (rule trim_template)
  then show ?thesis
    by (simp add: generateInvitationHTML_def)
qed

text \<open>
  What the rendering keeps, for every display name: when the message contains the
  placeholder, with \<open>pre\<close> the text before its first occurrence and \<open>post\<close> the text
  after it, the plain-text body of the request is \<open>pre\<close>, a replacement text and \<open>post\<close>,
  and the HTML is the template with that same text as the message paragraph. Only the
  first occurrence is replaced; \<open>post\<close>, with every later occurrence of the placeholder,
  is there unchanged. The replacement text is the display name when the name contains no
  dollar sign.
\<close>

theorem placeholder_first_occurrence_only:
  assumes "ui_message u = pre @ ''{NAME}'' @ post"
    and "\<And>b a. ui_message u = b @ ''{NAME}'' @ a \<Longrightarrow> length pre \<le> length b"
  shows "\<exists>x. mail_body (invitation_params u ev qr p) = pre @ x @ post
     \<and> mail_html (invitation_params u ev qr p)
       = Some (html_head
                 \<lparr>h_guestName = guest_name p, h_eventTitle = title ev,
                  h_eventDescription = description ev, h_message = ui_message u,
                  h_qrCodeDataUrl = qr, h_bgColor = bg_color ev,
                  h_accentColor = accent_color ev\<rparr>
               @ pre @ x @ post
               @ html_tail
                 \<lparr>h_guestName = guest_name p, h_eventTitle = title ev,
                  h_eventDescription = description ev, h_message = ui_message u,
                  h_qrCodeDataUrl = qr, h_bgColor = bg_color ev,
                  h_accentColor = accent_color ev\<rparr>)
     \<and> (CHR ''$'' \<notin> set (guest_name p) \<longrightarrow> x = guest_name p)"
proof -
  let ?x = "getSubstitution ''{NAME}'' pre post (guest_name p)"
  have "js_replace (ui_message u) ''{NAME}'' (guest_name p) = pre @ ?x @ post"
    using js_replace_first [OF assms] by simp
  then have "mail_body (invitation_params u ev qr p) = pre @ ?x @ post
     \<and> mail_html (invitation_params u ev qr p)
       = Some (html_head
                 \<lparr>h_guestName = guest_name p, h_eventTitle = title ev,
                  h_eventDescription = description ev, h_message = ui_message u,
                  h_qrCodeDataUrl = qr, h_bgColor = bg_color ev,
                  h_accentColor = accent_color ev\<rparr>
               @ pre @ ?x @ post
               @ html_tail
                 \<lparr>h_guestName = guest_name p, h_eventTitle = title ev,
                  h_eventDescription = description ev, h_message = ui_message u,
                  h_qrCodeDataUrl = qr, h_bgColor = bg_color ev,
                  h_accentColor = accent_color ev\<rparr>)"
    by (simp add: invitation_params_def generateInvitationHTML_eq)
  moreover have "CHR ''$'' \<notin> set (guest_name p) \<longrightarrow> ?x = guest_name p"
    by (simp add: getSubstitution_plain)
  ultimately show ?thesis
    by blast
qed

theorem placeholder_first_occurrence_only_witness:
  "first_match ''{NAME}'' (ui_message mail_page)
     = Some (''Dear '', '', your pass is inside. See you, {NAME}!'')
   \<and> CHR ''$'' \<notin> set (guest_name ana)
   \<and> mail_body (invitation_params mail_page demo_event ''data:'' ana)
     = ''Dear Ana, your pass is inside. See you, {NAME}!''"
proof -
  have fm: "first_match ''{NAME}'' (ui_message mail_page)
     = Some (''Dear '', '', your pass is inside. See you, {NAME}!'')"
    by (simp add: demo_defs)
  have h1: "ui_message mail_page = ''Dear '' @ ''{NAME}'' @ '', your pass is inside. See you, {NAME}!''"
    by (simp add: demo_defs)
  have h3: "CHR ''$'' \<notin> set (guest_name ana)"
    by (simp add: demo_defs)
  have "\<exists>x. mail_body (invitation_params mail_page demo_event ''data:'' ana)
            = ''Dear '' @ x @ '', your pass is inside. See you, {NAME}!''
     \<and> mail_html (invitation_params mail_page demo_event ''data:'' ana)
       = Some (html_head
                 \<lparr>h_guestName = guest_name ana, h_eventTitle = title demo_event,
                  h_eventDescription = description demo_event, h_message = ui_message mail_page,
                  h_qrCodeDataUrl = ''data:'', h_bgColor = bg_color demo_event,
                  h_accentColor = accent_color demo_event\<rparr>
               @ ''Dear '' @ x @ '', your pass is inside. See you, {NAME}!''
               @ html_tail
                 \<lparr>h_guestName = guest_name ana, h_eventTitle = title demo_event,
                  h_eventDescription = description demo_event, h_message = ui_message mail_page,
                  h_qrCodeDataUrl = ''data:'', h_bgColor = bg_color demo_event,
                  h_accentColor = accent_color demo_event\<rparr>)
     \<and> (CHR ''$'' \<notin> set (guest_name ana) \<longrightarrow> x = guest_name ana)"
  proof (rule placeholder_first_occurrence_only)
    show "ui_message mail_page = ''Dear '' @ ''{NAME}'' @ '', your pass is inside. See you, {NAME}!''"
      by (rule h1)
    show "length ''Dear '' \<le> length b" if "ui_message mail_page = b @ ''{NAME}'' @ a" for b a
      using fm that by (rule first_match_least)
  qed
  with h3 obtain x where "mail_body (invitation_params mail_page demo_event ''data:'' ana)
      = ''Dear '' @ x @ '', your pass is inside. See you, {NAME}!''" and "x = guest_name ana"
    by blast
  then have "mail_body (invitation_params mail_page demo_event ''data:'' ana)
     = ''Dear Ana, your pass is inside. See you, {NAME}!''"
    by (simp add: demo_defs)
  with fm h3 show ?thesis
    by simp
qed

text \<open>
  C10: only the first occurrence of the placeholder is replaced (see above), but not
  always by the guest's display name. For the display name \<open>Ca$$h\<close> the two dollar signs
  of the replacement string are read as the pattern for one dollar sign, and the body
  and the HTML of the request carry \<open>Ca$h\<close> where the first placeholder stood; the
  second placeholder is unchanged.
\<close>

theorem name_with_dollars_is_altered:
  "mail_body (invitation_params mail_page demo_event ''data:'' (ana\<lparr>guest_name := ''Ca$$h''\<rparr>))
     = ''Dear Ca$h, your pass is inside. See you, {NAME}!''
   \<and> mail_html (invitation_params mail_page demo_event ''data:'' (ana\<lparr>guest_name := ''Ca$$h''\<rparr>))
     = Some (html_head
               \<lparr>h_guestName = ''Ca$$h'', h_eventTitle = ''Launch'',
                h_eventDescription = Some ''Doors open at 7'',
                h_message = ''Dear {NAME}, your pass is inside. See you, {NAME}!'',
                h_qrCodeDataUrl = ''data:'', h_bgColor = None, h_accentColor = None\<rparr>
             @ ''Dear Ca$h, your pass is inside. See you, {NAME}!''
             @ html_tail
               \<lparr>h_guestName = ''Ca$$h'', h_eventTitle = ''Launch'',
                h_eventDescription = Some ''Doors open at 7'',
                h_message = ''Dear {NAME}, your pass is inside. See you, {NAME}!'',
                h_qrCodeDataUrl = ''data:'', h_bgColor = None, h_accentColor = None\<rparr>)"
  by (simp add: invitation_params_def generateInvitationHTML_eq js_replace_def demo_defs)

section \<open>Properties of the invitation loop\<close>

lemma set_status_simps [simp]:
  "m_db (set_status f st) = m_db st"
  "gmail_calls (set_status f st) = gmail_calls st"
  "fetches_pending (set_status f st) = fetches_pending st"
  "selectedEventId (m_ui (set_status f st)) = selectedEventId (m_ui st)"
  "ui_passes (m_ui (set_status f st)) = ui_passes (m_ui st)"
  "m_events (m_ui (set_status f st)) = m_events (m_ui st)"
  "subject (m_ui (set_status f st)) = subject (m_ui st)"
  "ui_message (m_ui (set_status f st)) = ui_message (m_ui st)"
  "m_status (m_ui (set_status f st)) = f (m_status (m_ui st))"
  by (simp_all add: set_status_def)

lemma invitation_params_status [simp]:
  "invitation_params (m_ui (set_status f st)) ev qr p = invitation_params (m_ui st) ev qr p"
  by (simp add: invitation_params_def)

lemma mark_sent_ids [simp]: "map pass_id (mark_sent pid t ps) = map pass_id ps"
  by (induction ps) (simp_all add: mark_sent_def)















lemma fetchPasses_keeps [simp]:
  "m_db (fetchPasses st) = m_db st"
  "gmail_calls (fetchPasses st) = gmail_calls st"
  "m_ui (fetchPasses st) = m_ui st"
  by (simp_all add: fetchPasses_def)

lemma fetchPasses_resumes_keeps [simp]:
  "m_db (fetchPasses_resumes f st) = m_db st"
  "gmail_calls (fetchPasses_resumes f st) = gmail_calls st"
  "selectedEventId (m_ui (fetchPasses_resumes f st)) = selectedEventId (m_ui st)"
  "ui_passes (m_ui (fetchPasses_resumes True st)) = ui_passes (m_ui st)"
  by (simp_all add: fetchPasses_resumes_def)












end
